theory Spec2Isabelle
  imports Main "HOL-Library.Sublist" "HOL-Library.AList"
begin

section \<open>Text and literal substring replacement\<close>

text \<open>
  The setup script \<^verbatim>\<open>scripts/setupTypeScript.js\<close> edits two text files with
  \<^verbatim>\<open>String.prototype.replace\<close>, always with a string (never a regular expression) as
  the pattern. With a string pattern only the first occurrence is replaced, and a text
  without the pattern is returned as it is. None of the replacement strings of the script
  contains a dollar sign, so the replacement is inserted literally. File contents are
  texts: lists of characters.
\<close>

text \<open>\<^verbatim>\<open>s.includes(pat)\<close>: the pattern occurs somewhere in the text.\<close>

fun str_includes :: "string \<Rightarrow> string \<Rightarrow> bool" where
  "str_includes [] pat = (pat = [])"
| "str_includes (c # cs) pat = (prefix pat (c # cs) \<or> str_includes cs pat)"

text \<open>\<^verbatim>\<open>s.replace(pat, rep)\<close> for a string pattern: the first occurrence only.\<close>

fun str_replace :: "string \<Rightarrow> string \<Rightarrow> string \<Rightarrow> string" where
  "str_replace [] pat rep = (if pat = [] then rep else [])"
| "str_replace (c # cs) pat rep =
     (if prefix pat (c # cs) then rep @ drop (length pat) (c # cs)
      else c # str_replace cs pat rep)"

text \<open>
  The number of positions of a text at which a pattern occurs; the script has no such
  function, it states how often a fragment is present before and after an edit.
\<close>

fun occurrences :: "string \<Rightarrow> string \<Rightarrow> nat" where
  "occurrences [] pat = (if pat = [] then 1 else 0)"
| "occurrences (c # cs) pat =
     (if prefix pat (c # cs) then 1 else 0) + occurrences cs pat"

text \<open>
  \<open>starts x y pat\<close> counts the occurrences of the pattern in \<open>x @ y\<close> that begin
  inside \<open>x\<close>, and \<open>entry_ok q u v\<close> says that every non-empty suffix of \<open>q\<close> either
  fits at the beginning of both \<open>u\<close> and \<open>v\<close> or fits at the beginning of
  neither, whatever follows them: an occurrence of a pattern with tail \<open>q\<close> that begins to
  the left of a replaced piece \<open>u\<close> is then neither lost nor created when \<open>v\<close> takes
  the place of \<open>u\<close>.
\<close>

fun starts :: "string \<Rightarrow> string \<Rightarrow> string \<Rightarrow> nat" where
  "starts [] y pat = 0"
| "starts (c # cs) y pat =
     (if prefix pat (c # cs @ y) then 1 else 0) + starts cs y pat"

fun entry_ok :: "string \<Rightarrow> string \<Rightarrow> string \<Rightarrow> bool" where
  "entry_ok [] u v = True"
| "entry_ok (c # cs) u v =
     (((prefix (c # cs) u \<and> prefix (c # cs) v) \<or>
       (\<not> prefix (c # cs) u \<and> \<not> prefix u (c # cs) \<and>
        \<not> prefix (c # cs) v \<and> \<not> prefix v (c # cs))) \<and>
      entry_ok cs u v)"

text \<open>
  \<open>clear_of q u\<close>: no non-empty suffix of \<open>q\<close> fits at the beginning of \<open>u\<close>, nor
  \<open>u\<close> at the beginning of the suffix. Two fragments that are clear of each other cannot
  overlap in a text.
\<close>

fun clear_of :: "string \<Rightarrow> string \<Rightarrow> bool" where
  "clear_of [] u = True"
| "clear_of (c # cs) u =
     (\<not> prefix (c # cs) u \<and> \<not> prefix u (c # cs) \<and> clear_of cs u)"

subsection \<open>The root component file\<close>

text \<open>
  Lines 80 and 83 of the script: the script tag gets the attribute \<^verbatim>\<open>lang="ts"\<close> and the
  declaration of the property \<^verbatim>\<open>name\<close> gets the type annotation.
\<close>

definition script_tag :: string where
  \<open>script_tag = ''<script>''\<close>

definition script_tag_ts :: string where
  \<open>script_tag_ts = ''<script lang="ts">''\<close>

definition name_decl :: string where
  \<open>name_decl = ''export let name;''\<close>

definition name_decl_ts :: string where
  \<open>name_decl_ts = ''export let name: string;''\<close>

definition convert_appFile :: "string \<Rightarrow> string" where
  "convert_appFile appFile =
     str_replace (str_replace appFile script_tag script_tag_ts) name_decl name_decl_ts"

subsection \<open>The bundler configuration file\<close>

text \<open>
  Lines 97 to 117 of the script: four replacements, each with the literal pattern and the
  literal replacement of the source. The fragments \<open>ts_imports\<close>, \<open>preprocess_line\<close> and
  \<open>typescript_call\<close> name what a replacement adds to its anchor.
\<close>

definition css_anchor :: string where
  \<open>css_anchor = '''rollup-plugin-css-only\';''\<close>

definition css_replacement :: string where
  \<open>css_replacement =
     '''rollup-plugin-css-only\';\<newline>import sveltePreprocess from 'svelte-preprocess\';\<newline>import typescript from '@rollup/plugin-typescript\';''\<close>

definition ts_imports :: string where
  \<open>ts_imports =
     ''\<newline>import sveltePreprocess from 'svelte-preprocess\';\<newline>import typescript from '@rollup/plugin-typescript\';''\<close>

definition entry_js :: string where
  \<open>entry_js = '''src/main.js'' @ [CHR 0x27]\<close>

definition entry_ts :: string where
  \<open>entry_ts = '''src/main.ts'' @ [CHR 0x27]\<close>

definition options_anchor :: string where
  \<open>options_anchor = ''compilerOptions:''\<close>

definition options_replacement :: string where
  \<open>options_replacement =
     ''preprocess: sveltePreprocess({ sourceMap: !production }),\<newline>'' @
     [CHR 0x09, CHR 0x09, CHR 0x09] @ ''compilerOptions:''\<close>

definition preprocess_line :: string where
  \<open>preprocess_line =
     ''preprocess: sveltePreprocess({ sourceMap: !production }),\<newline>'' @
     [CHR 0x09, CHR 0x09, CHR 0x09]\<close>

definition commonjs_anchor :: string where
  \<open>commonjs_anchor = ''commonjs(),''\<close>

definition commonjs_replacement :: string where
  \<open>commonjs_replacement =
     ''commonjs(),\<newline>'' @ [CHR 0x09, CHR 0x09] @ ''typescript({\<newline>'' @
     [CHR 0x09, CHR 0x09, CHR 0x09] @ ''sourceMap: !production,\<newline>'' @
     [CHR 0x09, CHR 0x09, CHR 0x09] @ ''inlineSources: !production\<newline>'' @
     [CHR 0x09, CHR 0x09] @ ''}),''\<close>

definition typescript_call :: string where
  \<open>typescript_call =
     ''\<newline>'' @ [CHR 0x09, CHR 0x09] @ ''typescript({\<newline>'' @
     [CHR 0x09, CHR 0x09, CHR 0x09] @ ''sourceMap: !production,\<newline>'' @
     [CHR 0x09, CHR 0x09, CHR 0x09] @ ''inlineSources: !production\<newline>'' @
     [CHR 0x09, CHR 0x09] @ ''}),''\<close>

definition convert_rollupConfig :: "string \<Rightarrow> string" where
  "convert_rollupConfig rollupConfig =
     str_replace
       (str_replace
          (str_replace
             (str_replace rollupConfig css_anchor css_replacement)
             entry_js entry_ts)
          options_anchor options_replacement)
       commonjs_anchor commonjs_replacement"

subsection \<open>Files with fixed content\<close>

definition tsconfig :: string where
  \<open>tsconfig =
     ''{\<newline>  "extends": "@tsconfig/svelte/tsconfig.json",\<newline>\<newline>  "include": ["src/**/*"],\<newline>  "exclude": ["node_modules/*", "__sapper__/*", "public/*"]\<newline>}''\<close>

definition svelteConfig :: string where
  \<open>svelteConfig =
     ''import sveltePreprocess from 'svelte-preprocess\';\<newline>\<newline>export default {\<newline>  preprocess: sveltePreprocess()\<newline>};\<newline>''\<close>

definition global_dts :: string where
  \<open>global_dts = ''/// <reference types="svelte" />''\<close>

definition extensions_json :: string where
  \<open>extensions_json = ''{\<newline>  "recommendations": ["svelte.svelte-vscode"]\<newline>}\<newline>''\<close>

section \<open>JSON values and the manifest\<close>

text \<open>
  What \<^verbatim>\<open>JSON.parse\<close> returns. An object is the list of its entries in property order,
  read as a map: the first entry of a key is its value. The script never looks inside a
  number.
\<close>

datatype json =
  JNull
  | JBool bool
  | JNum int
  | JStr string
  | JArr "json list"
  | JObj "(string \<times> json) list"

datatype error =
  SyntaxError | TypeError
  | ENOENT | EISDIR | ENOTDIR | ENOTEMPTY | EEXIST | EINVAL | EBUSY

definition and_then :: "error + 'a \<Rightarrow> ('a \<Rightarrow> error + 'b) \<Rightarrow> error + 'b" where
  "and_then r f = (case r of Inl e \<Rightarrow> Inl e | Inr x \<Rightarrow> f x)"

text \<open>
  Reading \<^verbatim>\<open>value.key\<close>; \<open>None\<close> is \<^verbatim>\<open>undefined\<close>. The script reads the keys
  \<^verbatim>\<open>devDependencies\<close> and \<^verbatim>\<open>scripts\<close> only, which no boolean, number, string or array
  has; reading a property of \<^verbatim>\<open>null\<close> throws.
\<close>

fun get_prop :: "json \<Rightarrow> string \<Rightarrow> error + json option" where
  "get_prop JNull k = Inl TypeError"
| "get_prop (JObj kvs) k = Inr (map_of kvs k)"
| "get_prop v k = Inr None"

text \<open>
  \<^verbatim>\<open>Object.assign(target, source)\<close> for a source that is an object literal: each source key
  is assigned in turn, an existing key keeps its place and a new key goes to the end.
  A target that is \<^verbatim>\<open>undefined\<close> or \<^verbatim>\<open>null\<close> throws. A boolean, number or string
  target is wrapped and an array takes the keys as named properties; the JSON text of
  either is the text of the value before, which is what the model keeps.
\<close>

fun Object_assign :: "json option \<Rightarrow> (string \<times> json) list \<Rightarrow> error + json" where
  "Object_assign None src = Inl TypeError"
| "Object_assign (Some JNull) src = Inl TypeError"
| "Object_assign (Some (JObj kvs)) src =
     Inr (JObj (fold (\<lambda>(k, v). AList.update k v) src kvs))"
| "Object_assign (Some v) src = Inr v"

text \<open>
  The assignment \<^verbatim>\<open>value.key = v\<close> in strict mode (the script is an ES module): it
  throws on \<^verbatim>\<open>null\<close> and on a primitive value, and a named property of an array does not
  show in its JSON text.
\<close>

fun set_prop :: "json \<Rightarrow> string \<Rightarrow> json \<Rightarrow> error + json" where
  "set_prop (JObj kvs) k v = Inr (JObj (AList.update k v kvs))"
| "set_prop (JArr xs) k v = Inr (JArr xs)"
| "set_prop j k v = Inl TypeError"

definition devDependencies_added :: "(string \<times> json) list" where
  "devDependencies_added =
     [(''svelte-check'', JStr ''^3.0.0''),
      (''svelte-preprocess'', JStr ''^5.0.0''),
      (''@rollup/plugin-typescript'', JStr ''^11.0.0''),
      (''typescript'', JStr ''^4.9.0''),
      (''tslib'', JStr ''^2.5.0''),
      (''@tsconfig/svelte'', JStr ''^3.0.0'')]"

definition scripts_added :: "(string \<times> json) list" where
  "scripts_added = [(''check'', JStr ''svelte-check'')]"

text \<open>Lines 43 to 56 of the script, on the parsed manifest.\<close>

definition merge_packageJSON :: "json \<Rightarrow> error + json" where
  "merge_packageJSON packageJSON =
     and_then (get_prop packageJSON ''devDependencies'') (\<lambda>dev.
     and_then (Object_assign dev devDependencies_added) (\<lambda>dev'.
     and_then (set_prop packageJSON ''devDependencies'' dev') (\<lambda>packageJSON'.
     and_then (get_prop packageJSON' ''scripts'') (\<lambda>scr.
     and_then (Object_assign scr scripts_added) (\<lambda>scr'.
     set_prop packageJSON' ''scripts'' scr')))))"

text \<open>
  \<^verbatim>\<open>JSON.parse\<close> and \<^verbatim>\<open>JSON.stringify(value, null, "  ")\<close> belong to the JavaScript
  runtime, not to the repository; the script is verified for every pair of them.
  \<open>None\<close> from \<open>parse\<close> is the \<^verbatim>\<open>SyntaxError\<close> of a malformed text.
\<close>

record runtime =
  parse :: "string \<Rightarrow> json option"
  stringify :: "json \<Rightarrow> string"

section \<open>The file system\<close>

text \<open>
  A path is the list of its segments from the root, and the file system is the finite list
  of the paths that exist, each a file with its text or a directory; the root always
  exists. The operations are the synchronous ones of the \<^verbatim>\<open>fs\<close> module of Node.js on a
  POSIX system without symbolic links and with all permissions granted, each with the
  error code it throws.
\<close>

type_synonym path = "string list"

datatype node = File string | Dir

type_synonym fs = "(path \<times> node) list"

definition lookup :: "fs \<Rightarrow> path \<Rightarrow> node option" where
  "lookup fs p = (if p = [] then Some Dir else map_of fs p)"

definition entries :: "fs \<Rightarrow> path \<Rightarrow> string list" where
  "entries fs d = remdups [last p. (p, n) \<leftarrow> fs, p \<noteq> [] \<and> butlast p = d]"

text \<open>
  The error for a path that does not exist: \<^verbatim>\<open>ENOTDIR\<close> when one of the directories on
  the way to it is a regular file, \<^verbatim>\<open>ENOENT\<close> otherwise.
\<close>

definition is_file :: "fs \<Rightarrow> path \<Rightarrow> bool" where
  "is_file fs p = (case lookup fs p of Some (File _) \<Rightarrow> True | _ \<Rightarrow> False)"

definition missing :: "fs \<Rightarrow> path \<Rightarrow> error" where
  "missing fs p = (if list_ex (is_file fs) (butlast (prefixes p)) then ENOTDIR else ENOENT)"

definition existsSync :: "fs \<Rightarrow> path \<Rightarrow> bool" where
  "existsSync fs p = (lookup fs p \<noteq> None)"

definition readFileSync :: "fs \<Rightarrow> path \<Rightarrow> error + string" where
  "readFileSync fs p =
     (case lookup fs p of
        None \<Rightarrow> Inl (missing fs p)
      | Some Dir \<Rightarrow> Inl EISDIR
      | Some (File text) \<Rightarrow> Inr text)"

text \<open>Writing creates the file or replaces its text; the directory must exist.\<close>

definition writeFileSync :: "fs \<Rightarrow> path \<Rightarrow> string \<Rightarrow> error + fs" where
  "writeFileSync fs p text =
     (case lookup fs p of
        Some Dir \<Rightarrow> Inl EISDIR
      | _ \<Rightarrow>
          (case lookup fs (butlast p) of
             None \<Rightarrow> Inl (missing fs (butlast p))
           | Some (File _) \<Rightarrow> Inl ENOTDIR
           | Some Dir \<Rightarrow> Inr (AList.update p (File text) fs)))"

text \<open>
  Renaming follows the documentation of \<^verbatim>\<open>fs.rename\<close>: a new path that exists is
  overwritten, and a directory at the new path is an error when a file is renamed. A
  directory moves with everything below it, onto nothing or onto an empty directory.
\<close>

definition move_tree :: "path \<Rightarrow> path \<Rightarrow> fs \<Rightarrow> fs" where
  "move_tree a b fs =
     [(b @ drop (length a) p, n). (p, n) \<leftarrow> fs, prefix a p] @
     [(p, n) \<leftarrow> fs. \<not> prefix a p \<and> p \<noteq> b]"

definition renameSync :: "fs \<Rightarrow> path \<Rightarrow> path \<Rightarrow> error + fs" where
  "renameSync fs a b =
     (if a = [] \<or> b = [] then Inl EBUSY
      else case lookup fs a of
        None \<Rightarrow> Inl (missing fs a)
      | Some (File text) \<Rightarrow>
          (case lookup fs b of
             Some Dir \<Rightarrow> Inl EISDIR
           | _ \<Rightarrow>
               if a = b then Inr fs
               else (case lookup fs (butlast b) of
                  None \<Rightarrow> Inl (missing fs (butlast b))
                | Some (File _) \<Rightarrow> Inl ENOTDIR
                | Some Dir \<Rightarrow> Inr (AList.update b (File text) (AList.delete a fs))))
      | Some Dir \<Rightarrow>
          if a = b then Inr fs
          else if prefix a b then Inl EINVAL
          else (case lookup fs b of
             Some (File _) \<Rightarrow> Inl ENOTDIR
           | Some Dir \<Rightarrow>
               if entries fs b \<noteq> [] then Inl ENOTEMPTY else Inr (move_tree a b fs)
           | None \<Rightarrow>
               (case lookup fs (butlast b) of
                  None \<Rightarrow> Inl (missing fs (butlast b))
                | Some (File _) \<Rightarrow> Inl ENOTDIR
                | Some Dir \<Rightarrow> Inr (move_tree a b fs))))"

definition unlinkSync :: "fs \<Rightarrow> path \<Rightarrow> error + fs" where
  "unlinkSync fs p =
     (case lookup fs p of
        None \<Rightarrow> Inl (missing fs p)
      | Some Dir \<Rightarrow> Inl EISDIR
      | Some (File _) \<Rightarrow> Inr (AList.delete p fs))"

definition readdirSync :: "fs \<Rightarrow> path \<Rightarrow> error + string list" where
  "readdirSync fs d =
     (case lookup fs d of
        None \<Rightarrow> Inl (missing fs d)
      | Some (File _) \<Rightarrow> Inl ENOTDIR
      | Some Dir \<Rightarrow> Inr (entries fs d))"

definition rmdirSync :: "fs \<Rightarrow> path \<Rightarrow> error + fs" where
  "rmdirSync fs d =
     (case lookup fs d of
        None \<Rightarrow> Inl (missing fs d)
      | Some (File _) \<Rightarrow> Inl ENOTDIR
      | Some Dir \<Rightarrow>
          if d = [] then Inl EBUSY
          else if entries fs d \<noteq> [] then Inl ENOTEMPTY
          else Inr (AList.delete d fs))"

text \<open>
  \<^verbatim>\<open>fs.mkdirSync(p, { recursive: true })\<close> goes through the directories on the way to
  \<open>p\<close> and creates the missing ones; a directory that exists is no error. It is the one
  operation that can fail after it has changed something, so it returns the file system
  with the error.
\<close>

fun mkdir_each :: "path list \<Rightarrow> fs \<Rightarrow> error option \<times> fs" where
  "mkdir_each [] fs = (None, fs)"
| "mkdir_each (d # ds) fs =
     (case lookup fs d of
        Some (File _) \<Rightarrow> (Some (if ds = [] then EEXIST else ENOTDIR), fs)
      | Some Dir \<Rightarrow> mkdir_each ds fs
      | None \<Rightarrow> mkdir_each ds (AList.update d Dir fs))"

definition mkdirSync_recursive :: "fs \<Rightarrow> path \<Rightarrow> error option \<times> fs" where
  "mkdirSync_recursive fs p = mkdir_each (tl (prefixes p)) fs"

section \<open>The invocation\<close>

text \<open>
  \<open>argv2\<close> is \<^verbatim>\<open>process.argv[2]\<close>, \<open>None\<close> when the script is started without an
  argument; \<open>script\<close> is the path of the running script, \<^verbatim>\<open>import.meta.url\<close>; \<open>cwd\<close> is
  the working directory, against which the operating system resolves a relative path.
\<close>

record invocation =
  argv2 :: "string option"
  script :: path
  cwd :: path

text \<open>A value used as a condition: \<^verbatim>\<open>undefined\<close> and the empty string count as false.\<close>

fun truthy :: "string option \<Rightarrow> bool" where
  "truthy None = False"
| "truthy (Some s) = (s \<noteq> [])"

fun split_on :: "char \<Rightarrow> string \<Rightarrow> string list" where
  "split_on c [] = [[]]"
| "split_on c (x # xs) =
     (if x = c then [] # split_on c xs
      else case split_on c xs of
             [] \<Rightarrow> [[x]]
           | w # ws \<Rightarrow> (x # w) # ws)"

fun walk :: "path \<Rightarrow> string list \<Rightarrow> path" where
  "walk dir [] = dir"
| "walk dir (seg # segs) =
     (if seg = [] \<or> seg = ''.'' then walk dir segs
      else if seg = ''..'' then walk (butlast dir) segs
      else walk (dir @ [seg]) segs)"

definition resolve :: "path \<Rightarrow> string \<Rightarrow> path" where
  "resolve wd s =
     (if s \<noteq> [] \<and> hd s = CHR ''/'' then walk [] (split_on CHR ''/'' s)
      else walk wd (split_on CHR ''/'' s))"

definition filename :: "invocation \<Rightarrow> path" where
  "filename cmd = script cmd"

definition dirname :: "invocation \<Rightarrow> path" where
  "dirname cmd = butlast (script cmd)"

text \<open>Line 36: \<^verbatim>\<open>argv[2] || path.join(__dirname, "..")\<close>.\<close>

definition projectRoot :: "invocation \<Rightarrow> path" where
  "projectRoot cmd =
     (case argv2 cmd of
        None \<Rightarrow> butlast (dirname cmd)
      | Some s \<Rightarrow> if s \<noteq> [] then resolve (cwd cmd) s else butlast (dirname cmd))"

definition packageJSONPath :: "invocation \<Rightarrow> path" where
  "packageJSONPath cmd = projectRoot cmd @ [''package.json'']"

definition beforeMainJSPath :: "invocation \<Rightarrow> path" where
  "beforeMainJSPath cmd = projectRoot cmd @ [''src'', ''main.js'']"

definition afterMainTSPath :: "invocation \<Rightarrow> path" where
  "afterMainTSPath cmd = projectRoot cmd @ [''src'', ''main.ts'']"

definition appSveltePath :: "invocation \<Rightarrow> path" where
  "appSveltePath cmd = projectRoot cmd @ [''src'', ''App.svelte'']"

definition rollupConfigPath :: "invocation \<Rightarrow> path" where
  "rollupConfigPath cmd = projectRoot cmd @ [''rollup.config.js'']"

definition tsconfigPath :: "invocation \<Rightarrow> path" where
  "tsconfigPath cmd = projectRoot cmd @ [''tsconfig.json'']"

definition svelteConfigPath :: "invocation \<Rightarrow> path" where
  "svelteConfigPath cmd = projectRoot cmd @ [''svelte.config.js'']"

definition dtsPath :: "invocation \<Rightarrow> path" where
  "dtsPath cmd = projectRoot cmd @ [''src'', ''global.d.ts'']"

definition vscodePath :: "invocation \<Rightarrow> path" where
  "vscodePath cmd = projectRoot cmd @ [''.vscode'']"

definition extensionsPath :: "invocation \<Rightarrow> path" where
  "extensionsPath cmd = projectRoot cmd @ [''.vscode'', ''extensions.json'']"

definition DS_storePath :: "invocation \<Rightarrow> path" where
  "DS_storePath cmd = dirname cmd @ [''.DS_store'']"

section \<open>The script\<close>

text \<open>
  The state of a run is the file system and the lines written to the console. A step
  returns the error it throws, if any, with the state it leaves; the script has no
  \<^verbatim>\<open>try\<close>, so the first error ends the run and what was done before stays done.
\<close>

record state =
  files :: fs
  console :: "string list"

type_synonym step = "state \<Rightarrow> error option \<times> state"

definition atomic :: "(fs \<Rightarrow> error + fs) \<Rightarrow> step" where
  "atomic f st =
     (case f (files st) of
        Inl e \<Rightarrow> (Some e, st)
      | Inr fs' \<Rightarrow> (None, st\<lparr>files := fs'\<rparr>))"

fun exec :: "step list \<Rightarrow> step" where
  "exec [] st = (None, st)"
| "exec (f # fs) st =
     (case f st of
        (Some e, st') \<Rightarrow> (Some e, st')
      | (None, st') \<Rightarrow> exec fs st')"

text \<open>Lines 40 to 60: the manifest.\<close>

definition step_packageJSON :: "runtime \<Rightarrow> invocation \<Rightarrow> fs \<Rightarrow> error + fs" where
  "step_packageJSON rt cmd fs =
     and_then (readFileSync fs (packageJSONPath cmd)) (\<lambda>text.
       case parse rt text of
         None \<Rightarrow> Inl SyntaxError
       | Some packageJSON \<Rightarrow>
           and_then (merge_packageJSON packageJSON) (\<lambda>packageJSON'.
             writeFileSync fs (packageJSONPath cmd) (stringify rt packageJSON')))"

text \<open>Line 69: the entry point.\<close>

definition step_rename :: "invocation \<Rightarrow> fs \<Rightarrow> error + fs" where
  "step_rename cmd fs = renameSync fs (beforeMainJSPath cmd) (afterMainTSPath cmd)"

text \<open>Lines 77 to 86: the root component.\<close>

definition step_appFile :: "invocation \<Rightarrow> fs \<Rightarrow> error + fs" where
  "step_appFile cmd fs =
     and_then (readFileSync fs (appSveltePath cmd)) (\<lambda>appFile.
       writeFileSync fs (appSveltePath cmd) (convert_appFile appFile))"

text \<open>Lines 93 to 120: the bundler configuration.\<close>

definition step_rollupConfig :: "invocation \<Rightarrow> fs \<Rightarrow> error + fs" where
  "step_rollupConfig cmd fs =
     and_then (readFileSync fs (rollupConfigPath cmd)) (\<lambda>rollupConfig.
       writeFileSync fs (rollupConfigPath cmd) (convert_rollupConfig rollupConfig))"

text \<open>Lines 135, 150 and 157: the three new files.\<close>

definition step_tsconfig :: "invocation \<Rightarrow> fs \<Rightarrow> error + fs" where
  "step_tsconfig cmd fs = writeFileSync fs (tsconfigPath cmd) tsconfig"

definition step_svelteConfig :: "invocation \<Rightarrow> fs \<Rightarrow> error + fs" where
  "step_svelteConfig cmd fs = writeFileSync fs (svelteConfigPath cmd) svelteConfig"

definition step_dts :: "invocation \<Rightarrow> fs \<Rightarrow> error + fs" where
  "step_dts cmd fs = writeFileSync fs (dtsPath cmd) global_dts"

text \<open>Lines 164 to 180: the three statements of the branch that deletes the script.\<close>

definition step_unlink_script :: "invocation \<Rightarrow> fs \<Rightarrow> error + fs" where
  "step_unlink_script cmd fs = unlinkSync fs (filename cmd)"

definition step_DS_store :: "invocation \<Rightarrow> fs \<Rightarrow> error + fs" where
  "step_DS_store cmd fs =
     and_then (readdirSync fs (dirname cmd)) (\<lambda>remainingFiles.
       if length remainingFiles = 1 \<and> remainingFiles ! 0 = ''.DS_store''
       then unlinkSync fs (DS_storePath cmd)
       else Inr fs)"

definition step_rmdir :: "invocation \<Rightarrow> fs \<Rightarrow> error + fs" where
  "step_rmdir cmd fs =
     and_then (readdirSync fs (dirname cmd)) (\<lambda>remainingFiles.
       if length remainingFiles = 0 then rmdirSync fs (dirname cmd) else Inr fs)"

text \<open>Lines 184 to 190: the editor recommendation.\<close>

definition step_mkdir_vscode :: "invocation \<Rightarrow> step" where
  "step_mkdir_vscode cmd st =
     (case mkdirSync_recursive (files st) (vscodePath cmd) of
        (r, fs') \<Rightarrow> (r, st\<lparr>files := fs'\<rparr>))"

definition step_extensions :: "invocation \<Rightarrow> fs \<Rightarrow> error + fs" where
  "step_extensions cmd fs = writeFileSync fs (extensionsPath cmd) extensions_json"

text \<open>Lines 193 to 199: the two messages.\<close>

definition console_log :: "string \<Rightarrow> step" where
  "console_log msg st = (None, st\<lparr>console := console st @ [msg]\<rparr>)"

definition step_advise :: "invocation \<Rightarrow> step" where
  "step_advise cmd st =
     (if existsSync (files st) (projectRoot cmd @ [''node_modules''])
      then console_log
             ''\<newline>You will need to re-run your dependency manager to get started.'' st
      else (None, st))"

text \<open>
  The whole script: the conversion, then the branch of line 161, taken when
  \<^verbatim>\<open>argv[2]\<close> is false as a condition, then the recommendation and the messages.
\<close>

definition conversion_steps :: "runtime \<Rightarrow> invocation \<Rightarrow> step list" where
  "conversion_steps rt cmd =
     [atomic (step_packageJSON rt cmd),
      atomic (step_rename cmd),
      atomic (step_appFile cmd),
      atomic (step_rollupConfig cmd),
      atomic (step_tsconfig cmd),
      atomic (step_svelteConfig cmd),
      atomic (step_dts cmd)]"

definition cleanup_steps :: "invocation \<Rightarrow> step list" where
  "cleanup_steps cmd =
     (if \<not> truthy (argv2 cmd)
      then [atomic (step_unlink_script cmd),
            atomic (step_DS_store cmd),
            atomic (step_rmdir cmd)]
      else [])"

definition finish_steps :: "invocation \<Rightarrow> step list" where
  "finish_steps cmd =
     [step_mkdir_vscode cmd,
      atomic (step_extensions cmd),
      console_log ''Converted to TypeScript.'',
      step_advise cmd]"

definition setupTypeScript :: "runtime \<Rightarrow> invocation \<Rightarrow> step" where
  "setupTypeScript rt cmd =
     exec (conversion_steps rt cmd @ cleanup_steps cmd @ finish_steps cmd)"

section \<open>A small template project\<close>

text \<open>
  A project in the layout the script expects, with the script in its \<^verbatim>\<open>scripts\<close>
  directory, and a runtime that knows the one manifest of the project. The theorems are
  applied to it, and to variations of it, below.
\<close>

definition demo_manifest :: string where
  \<open>demo_manifest = ''{"devDependencies":{"svelte":"^3.0.0"},"scripts":{"build":"rollup -c"}}''\<close>

definition demo_packageJSON :: json where
  "demo_packageJSON =
     JObj [(''devDependencies'', JObj [(''svelte'', JStr ''^3.0.0'')]),
           (''scripts'', JObj [(''build'', JStr ''rollup -c'')])]"

definition demo_runtime :: runtime where
  "demo_runtime =
     \<lparr>parse = (\<lambda>text. if text = demo_manifest then Some demo_packageJSON else None),
      stringify = (\<lambda>j. case merge_packageJSON demo_packageJSON of
                          Inr j' \<Rightarrow> if j = j' then ''merged manifest'' else ''other''
                        | Inl _ \<Rightarrow> ''other'')\<rparr>"

definition demo_appFile :: string where
  \<open>demo_appFile = ''<script>\<newline>export let name;\<newline></script>\<newline><h1>Hello {name}!</h1>''\<close>

definition demo_rollupConfig :: string where
  \<open>demo_rollupConfig =
     ''import css from 'rollup-plugin-css-only\';\<newline>input: 'src/main.js', compilerOptions: { dev: !production } commonjs(), terser()''\<close>

definition demo_files :: fs where
  "demo_files =
     [([''proj''], Dir),
      ([''proj'', ''package.json''], File demo_manifest),
      ([''proj'', ''rollup.config.js''], File demo_rollupConfig),
      ([''proj'', ''src''], Dir),
      ([''proj'', ''src'', ''main.js''], File ''new App()''),
      ([''proj'', ''src'', ''App.svelte''], File demo_appFile),
      ([''proj'', ''scripts''], Dir),
      ([''proj'', ''scripts'', ''setupTypeScript.js''], File ''the script'')]"

definition demo_state :: state where
  "demo_state = \<lparr>files = demo_files, console = []\<rparr>"

text \<open>Started in place, without an argument, and started from outside with the directory.\<close>

definition demo_in_place :: invocation where
  "demo_in_place =
     \<lparr>argv2 = None, script = [''proj'', ''scripts'', ''setupTypeScript.js''], cwd = [''proj'']\<rparr>"

definition demo_with_arg :: invocation where
  "demo_with_arg =
     \<lparr>argv2 = Some ''proj'', script = [''proj'', ''scripts'', ''setupTypeScript.js''],
      cwd = []\<rparr>"

text \<open>A root component whose comment already shows the typed script tag.\<close>

definition demo_appFile_commented :: string where
  \<open>demo_appFile_commented =
     ''<!-- <script lang="ts"> enables types -->\<newline><script>\<newline>export let name;\<newline></script>''\<close>

text \<open>The same project with a manifest that has no scripts.\<close>

definition demo_bare_manifest :: string where
  \<open>demo_bare_manifest = ''{"devDependencies":{}}''\<close>

definition demo_bare_runtime :: runtime where
  "demo_bare_runtime =
     \<lparr>parse = (\<lambda>text. if text = demo_bare_manifest
                       then Some (JObj [(''devDependencies'', JObj [])]) else None),
      stringify = (\<lambda>j. ''{}'')\<rparr>"

definition demo_bare_state :: state where
  "demo_bare_state =
     \<lparr>files = AList.update [''proj'', ''package.json''] (File demo_bare_manifest) demo_files,
      console = []\<rparr>"

text \<open>The same project with a root component that has no script.\<close>

definition demo_plain_state :: state where
  "demo_plain_state =
     \<lparr>files = AList.update [''proj'', ''src'', ''App.svelte''] (File ''<h1>Hello!</h1>'')
                demo_files,
      console = []\<rparr>"




text \<open>Started with the empty string as its argument.\<close>

definition demo_empty_arg :: invocation where
  "demo_empty_arg =
     \<lparr>argv2 = Some [], script = [''proj'', ''scripts'', ''setupTypeScript.js''],
      cwd = [''proj'']\<rparr>"

text \<open>The same project with a metadata file beside the script, and a script that is gone.\<close>

definition demo_metadata_state :: state where
  "demo_metadata_state =
     \<lparr>files = demo_files @ [([''proj'', ''scripts'', ''.DS_store''], File ''metadata'')],
      console = []\<rparr>"

definition demo_gone :: invocation where
  "demo_gone = \<lparr>argv2 = None, script = [''proj'', ''scripts'', ''gone.js''], cwd = [''proj'']\<rparr>"

section \<open>What a run leaves alone\<close>

text \<open>
  The files the conversion rewrites or creates in the target directory, apart from the
  entry point, which it renames. \<open>preserves P f\<close>: the step \<open>f\<close> leaves a state in which
  \<open>P\<close> holds in a state in which \<open>P\<close> holds, whether it fails or not.
\<close>

definition rewritten :: "invocation \<Rightarrow> path list" where
  "rewritten cmd =
     [packageJSONPath cmd, appSveltePath cmd, rollupConfigPath cmd, tsconfigPath cmd,
      svelteConfigPath cmd, dtsPath cmd, extensionsPath cmd]"

definition preserves :: "(state \<Rightarrow> bool) \<Rightarrow> step \<Rightarrow> bool" where
  "preserves P f = (\<forall>st. P st \<longrightarrow> P (snd (f st)))"

section \<open>Properties of the replacement\<close>

lemma str_includes_iff: "str_includes s pat \<longleftrightarrow> (\<exists>pre post. s = pre @ pat @ post)"
proof (induction s)
  case Nil
  then show ?case by auto
next
  case (Cons c cs)
  show ?case
  proof
    assume "str_includes (c # cs) pat"
    then consider "prefix pat (c # cs)" | "str_includes cs pat" by auto
    then show "\<exists>pre post. c # cs = pre @ pat @ post"
    proof cases
      case 1
      then obtain post where "c # cs = pat @ post" by (auto simp: prefix_def)
      then have "c # cs = [] @ pat @ post" by simp
      then show ?thesis by blast
    next
      case 2
      with Cons.IH obtain pre post where "cs = pre @ pat @ post" by blast
      then have "c # cs = (c # pre) @ pat @ post" by simp
      then show ?thesis by blast
    qed
  next
    assume "\<exists>pre post. c # cs = pre @ pat @ post"
    then obtain pre post where e: "c # cs = pre @ pat @ post" by blast
    show "str_includes (c # cs) pat"
    proof (cases pre)
      case Nil
      with e have "prefix pat (c # cs)" by (simp add: prefix_def)
      then show ?thesis by simp
    next
      case (Cons d pre')
      with e have "cs = pre' @ pat @ post" by simp
      with Cons.IH have "str_includes cs pat" by blast
      then show ?thesis by simp
    qed
  qed
qed

lemma str_replace_absent: "\<not> str_includes s pat \<Longrightarrow> str_replace s pat rep = s"
  by (induction s) auto

lemma str_replace_present:
  "pat \<noteq> [] \<Longrightarrow> str_includes s pat \<Longrightarrow>
   \<exists>pre post. s = pre @ pat @ post \<and> str_replace s pat rep = pre @ rep @ post \<and>
     \<not> str_includes (butlast (pre @ pat)) pat"
proof (induction s)
  case Nil
  then show ?case by auto
next
  case (Cons c cs)
  show ?case
  proof (cases "prefix pat (c # cs)")
    case True
    then obtain post where p: "c # cs = pat @ post" by (auto simp: prefix_def)
    have "\<not> str_includes (butlast pat) pat"
    proof
      assume "str_includes (butlast pat) pat"
      then obtain a b where "butlast pat = a @ pat @ b" by (auto simp: str_includes_iff)
      then have "length (butlast pat) = length a + length pat + length b" by simp
      then have "length pat - 1 = length a + length pat + length b" by simp
      moreover from Cons.prems(1) have "0 < length pat" by simp
      ultimately show False by linarith
    qed
    then have nb: "\<not> str_includes (butlast ([] @ pat)) pat" by simp
    from True p have "drop (length pat) (c # cs) = post" by simp
    with True have "str_replace (c # cs) pat rep = [] @ rep @ post" by simp
    moreover from p have "c # cs = [] @ pat @ post" by simp
    ultimately show ?thesis using nb by blast
  next
    case False
    with Cons.prems have "str_includes cs pat" by simp
    with Cons.IH Cons.prems(1) obtain pre post where
      d: "cs = pre @ pat @ post" "str_replace cs pat rep = pre @ rep @ post"
        "\<not> str_includes (butlast (pre @ pat)) pat" by blast
    note ne = Cons.prems(1)
    have "\<not> str_includes (butlast ((c # pre) @ pat)) pat"
    proof
      assume a: "str_includes (butlast ((c # pre) @ pat)) pat"
      from ne have b: "butlast ((c # pre) @ pat) = c # butlast (pre @ pat)" by simp
      from a b d(3) have "prefix pat (c # butlast (pre @ pat))" by simp
      moreover have "prefix (c # butlast (pre @ pat)) (c # cs)"
      proof -
        have "prefix (butlast (pre @ pat)) (pre @ pat)" by (rule prefixeq_butlast)
        moreover have "prefix (pre @ pat) cs" using d(1) by (simp add: prefix_def)
        ultimately have "prefix (butlast (pre @ pat)) cs" by (rule prefix_order.trans)
        then show ?thesis by simp
      qed
      ultimately have "prefix pat (c # cs)" by (rule prefix_order.trans)
      with False show False by simp
    qed
    moreover from False d(2) have "str_replace (c # cs) pat rep = (c # pre) @ rep @ post"
      by simp
    moreover from d(1) have "c # cs = (c # pre) @ pat @ post" by simp
    ultimately show ?thesis by blast
  qed
qed

lemma occurrences_append: "occurrences (x @ z) pat = starts x z pat + occurrences z pat"
  by (induction x) auto

lemma occurrences_pos_iff: "0 < occurrences s pat \<longleftrightarrow> str_includes s pat"
  by (induction s) auto

lemma entry_ok_suffix:
  "entry_ok q u v \<Longrightarrow> suffix p' q \<Longrightarrow> p' \<noteq> [] \<Longrightarrow>
   prefix p' (u @ y) \<longleftrightarrow> prefix p' (v @ y)"
proof (induction q)
  case Nil
  then show ?case by simp
next
  case (Cons c cs)
  show ?case
  proof (cases "p' = c # cs")
    case True
    from Cons.prems(1) consider
      "prefix (c # cs) u \<and> prefix (c # cs) v"
      | "\<not> prefix (c # cs) u \<and> \<not> prefix u (c # cs) \<and> \<not> prefix (c # cs) v \<and> \<not> prefix v (c # cs)"
      by auto
    then show ?thesis
    proof cases
      case 1
      with True show ?thesis by simp
    next
      case 2
      have "\<not> prefix (c # cs) (u @ y)" using 2 by (auto simp: prefix_append)
      moreover have "\<not> prefix (c # cs) (v @ y)" using 2 by (auto simp: prefix_append)
      ultimately show ?thesis using True by simp
    qed
  next
    case False
    with Cons.prems(2) have "suffix p' cs" by (simp add: suffix_Cons)
    with Cons show ?thesis by simp
  qed
qed

lemma prefix_append_short:
  "length pat \<le> length w \<Longrightarrow> prefix pat (w @ z) \<longleftrightarrow> prefix pat w"
  by (auto simp: prefix_append)

lemma starts_entry_ok:
  assumes "entry_ok (tl pat) u v"
  shows "starts x (u @ y) pat = starts x (v @ y) pat"
proof (induction x)
  case Nil
  show ?case by simp
next
  case (Cons c cs)
  let ?w = "c # cs"
  have "prefix pat (?w @ u @ y) \<longleftrightarrow> prefix pat (?w @ v @ y)"
  proof (cases "length pat \<le> length ?w")
    case True
    from prefix_append_short[OF this]
    show ?thesis by blast
  next
    case False
    show ?thesis
    proof (cases "take (length ?w) pat = ?w")
      case True
      define p' where "p' = drop (length ?w) pat"
      have pat: "pat = ?w @ p'" unfolding p'_def using True by (metis append_take_drop_id)
      have ne: "p' \<noteq> []" using False p'_def by simp
      have "suffix p' (tl pat)" using pat by (simp add: suffix_def)
      from entry_ok_suffix[OF assms this ne]
      have "prefix p' (u @ y) \<longleftrightarrow> prefix p' (v @ y)" .
      then have "prefix (?w @ p') (?w @ u @ y) \<longleftrightarrow> prefix (?w @ p') (?w @ v @ y)"
        by (simp only: same_prefix_prefix)
      then show ?thesis using pat by simp
    next
      case False
      have "\<And>z. \<not> prefix pat (?w @ z)"
      proof
        fix z assume "prefix pat (?w @ z)"
        then obtain r where "?w @ z = pat @ r" by (auto simp: prefix_def)
        then have "take (length ?w) (pat @ r) = ?w" by (metis append_eq_conv_conj)
        with \<open>\<not> length pat \<le> length ?w\<close> have "take (length ?w) pat = ?w" by simp
        with False show False by simp
      qed
      then show ?thesis by blast
    qed
  qed
  with Cons show ?case by simp
qed

lemma occurrences_splice:
  assumes "entry_ok (tl pat) u v"
  shows "occurrences (x @ u @ y) pat + starts v y pat =
         occurrences (x @ v @ y) pat + starts u y pat"
  using starts_entry_ok[OF assms, of x y]
  by (simp add: occurrences_append)

lemma str_replace_splits:
  "str_includes s pat \<Longrightarrow>
   \<exists>pre post. s = pre @ pat @ post \<and> str_replace s pat rep = pre @ rep @ post"
proof (induction s)
  case Nil
  then show ?case by auto
next
  case (Cons c cs)
  show ?case
  proof (cases "prefix pat (c # cs)")
    case True
    then obtain post where p: "c # cs = pat @ post" by (auto simp: prefix_def)
    then have "drop (length pat) (c # cs) = post" by simp
    with True have "str_replace (c # cs) pat rep = [] @ rep @ post" by simp
    moreover from p have "c # cs = [] @ pat @ post" by simp
    ultimately show ?thesis by blast
  next
    case False
    with Cons.prems have "str_includes cs pat" by simp
    with Cons.IH obtain pre post where
      d: "cs = pre @ pat @ post" "str_replace cs pat rep = pre @ rep @ post" by blast
    from False d(2) have "str_replace (c # cs) pat rep = (c # pre) @ rep @ post" by simp
    moreover from d(1) have "c # cs = (c # pre) @ pat @ post" by simp
    ultimately show ?thesis by blast
  qed
qed

lemma str_replace_includes:
  assumes "str_includes s pat"
  shows "str_includes (str_replace s pat rep) rep"
proof -
  from str_replace_splits[OF assms] obtain pre post where
    "str_replace s pat rep = pre @ rep @ post" by blast
  then show ?thesis unfolding str_includes_iff by blast
qed

lemma str_replace_length:
  "length (str_replace s pat rep) + (if str_includes s pat then length pat else 0) =
   length s + (if str_includes s pat then length rep else 0)"
proof (cases "str_includes s pat")
  case True
  from str_replace_splits[OF True] obtain pre post where
    "s = pre @ pat @ post" "str_replace s pat rep = pre @ rep @ post" by blast
  with True show ?thesis by simp
next
  case False
  then show ?thesis by (simp add: str_replace_absent)
qed

text \<open>
  How a replacement changes the number of occurrences of a fragment: by the difference
  between the occurrences that begin inside the new piece and those that began inside
  the old one.
\<close>

lemma replace_count:
  assumes ok: "entry_ok (tl pat) u v"
    and d: "\<And>y. starts v y pat = starts u y pat + d"
  shows "occurrences (str_replace s u v) pat =
         occurrences s pat + (if str_includes s u then d else 0)"
proof (cases "str_includes s u")
  case True
  from str_replace_splits[OF True] obtain pre post where
    s: "s = pre @ u @ post" and r: "str_replace s u v = pre @ v @ post" by blast
  from occurrences_splice[OF ok, of pre post] d[of post]
  have "occurrences (pre @ v @ post) pat = occurrences (pre @ u @ post) pat + d" by simp
  with True s r show ?thesis by simp
next
  case False
  then show ?thesis by (simp add: str_replace_absent)
qed

lemma replace_keeps:
  assumes ok: "entry_ok (tl pat) u v"
    and d: "\<And>y. starts v y pat = starts u y pat"
  shows "occurrences (str_replace s u v) pat = occurrences s pat"
  using replace_count[OF ok, of 0 s] d by simp

lemma includes_append_left: "str_includes s (a @ b) \<Longrightarrow> str_includes s a"
proof -
  assume "str_includes s (a @ b)"
  then obtain pre post where "s = pre @ (a @ b) @ post" unfolding str_includes_iff by blast
  then have "s = pre @ a @ (b @ post)" by simp
  then show ?thesis unfolding str_includes_iff by blast
qed

lemma includes_append_right: "str_includes s (a @ b) \<Longrightarrow> str_includes s b"
proof -
  assume "str_includes s (a @ b)"
  then obtain pre post where "s = pre @ (a @ b) @ post" unfolding str_includes_iff by blast
  then have "s = (pre @ a) @ b @ post" by simp
  then show ?thesis unfolding str_includes_iff by blast
qed

lemma includes_by_count:
  assumes "occurrences t pat = occurrences s pat" and "str_includes s pat"
  shows "str_includes t pat"
proof -
  from assms(2) have "0 < occurrences s pat" by (simp only: occurrences_pos_iff)
  with assms(1) have "0 < occurrences t pat" by simp
  then show ?thesis by (simp only: occurrences_pos_iff)
qed

lemma clear_of_suffix:
  "clear_of q u \<Longrightarrow> suffix t q \<Longrightarrow> t \<noteq> [] \<Longrightarrow> \<not> prefix t u \<and> \<not> prefix u t"
proof (induction q)
  case Nil
  then show ?case by simp
next
  case (Cons c cs)
  show ?case
  proof (cases "t = c # cs")
    case True
    with Cons.prems(1) show ?thesis by simp
  next
    case False
    with Cons.prems(2) have "suffix t cs" by (simp add: suffix_Cons)
    with Cons show ?thesis by simp
  qed
qed

lemma same_start_comparable: "t @ a = u @ b \<Longrightarrow> prefix t u \<or> prefix u t"
  by (auto simp: append_eq_append_conv2 prefix_def)

text \<open>Two occurrences of fragments that are clear of each other lie side by side.\<close>

lemma occurrences_apart:
  assumes eq: "x @ u @ y = x' @ v @ y'"
    and vu: "clear_of (tl v) u"
    and uv: "clear_of u v"
  shows "(\<exists>b. x' = x @ u @ b \<and> y = b @ v @ y') \<or> (\<exists>b. x = x' @ v @ b \<and> y' = b @ u @ y)"
proof -
  from eq have "(x @ u) @ y = x' @ (v @ y')" by simp
  then consider us where "x @ u = x' @ us" "us @ y = v @ y'"
    | us where "(x @ u) @ us = x'" "y = us @ v @ y'"
    unfolding append_eq_append_conv2[of "x @ u" y x' "v @ y'"] by blast
  then show ?thesis
  proof cases
    case 2
    then show ?thesis by auto
  next
    case 1
    from 1(1) consider ws where "x = x' @ ws" "ws @ u = us"
      | ws where "x @ ws = x'" "u = ws @ us"
      unfolding append_eq_append_conv2[of x u x' us] by blast
    then show ?thesis
    proof cases
      case 1
      note a = this
      from a(2) \<open>us @ y = v @ y'\<close> have "ws @ (u @ y) = v @ y'" by auto
      then consider t where "ws = v @ t" "t @ u @ y = y'"
        | t where "ws @ t = v" "u @ y = t @ y'"
        unfolding append_eq_append_conv2[of ws "u @ y" v y'] by blast
      then show ?thesis
      proof cases
        case 1
        with a(1) show ?thesis by auto
      next
        case 2
        show ?thesis
        proof (cases "t = []")
          case True
          with 2 a(1) show ?thesis by auto
        next
          case False
          from 2(2) have cmp: "prefix t u \<or> prefix u t"
            using same_start_comparable[of t y' u y] by auto
          show ?thesis
          proof (cases "ws = []")
            case True
            with 2(1) a(1) have tv: "t = v" and xx: "x = x'" by simp_all
            show ?thesis
            proof (cases "u = []")
              case True
              with 2(2) tv have "y = v @ y'" by simp
              with xx True show ?thesis by simp
            next
              case False
              with clear_of_suffix[OF uv, of u] have "\<not> prefix u v \<and> \<not> prefix v u"
                by simp
              with cmp tv show ?thesis by blast
            qed
          next
            case ne: False
            from 2(1) ne have "suffix t (tl v)"
              by (cases ws) (auto simp: suffix_def)
            from clear_of_suffix[OF vu this False] cmp show ?thesis by blast
          qed
        qed
      qed
    next
      case 2
      note a = this
      show ?thesis
      proof (cases "us = []")
        case True
        with a \<open>us @ y = v @ y'\<close> show ?thesis by auto
      next
        case False
        from a(2) have "suffix us u" by (simp add: suffix_def)
        from clear_of_suffix[OF uv this False]
          same_start_comparable[OF \<open>us @ y = v @ y'\<close>]
        show ?thesis by blast
      qed
    qed
  qed
qed

subsection \<open>The four replacements in the bundler configuration\<close>

lemma css_replacement_eq: "css_replacement = css_anchor @ ts_imports"
  by (simp add: css_replacement_def css_anchor_def ts_imports_def)

lemma options_replacement_eq: "options_replacement = preprocess_line @ options_anchor"
  by (simp add: options_replacement_def preprocess_line_def options_anchor_def)

lemma commonjs_replacement_eq: "commonjs_replacement = commonjs_anchor @ typescript_call"
  by (simp add: commonjs_replacement_def commonjs_anchor_def typescript_call_def)

text \<open>The first replacement keeps the later anchors.\<close>

lemma css_keeps_entry_js:
  "occurrences (str_replace s css_anchor css_replacement) entry_js = occurrences s entry_js"
  by (rule replace_keeps) (simp_all add: css_anchor_def css_replacement_def entry_js_def)

lemma css_keeps_options_anchor:
  "occurrences (str_replace s css_anchor css_replacement) options_anchor =
   occurrences s options_anchor"
  by (rule replace_keeps) (simp_all add: css_anchor_def css_replacement_def options_anchor_def)

lemma css_keeps_commonjs_anchor:
  "occurrences (str_replace s css_anchor css_replacement) commonjs_anchor =
   occurrences s commonjs_anchor"
  by (rule replace_keeps) (simp_all add: css_anchor_def css_replacement_def commonjs_anchor_def)

lemma css_keeps_entry_ts:
  "occurrences (str_replace s css_anchor css_replacement) entry_ts = occurrences s entry_ts"
  by (rule replace_keeps) (simp_all add: css_anchor_def css_replacement_def entry_ts_def)

lemma css_keeps_preprocess_line:
  "occurrences (str_replace s css_anchor css_replacement) preprocess_line =
   occurrences s preprocess_line"
  by (rule replace_keeps) (simp_all add: css_anchor_def css_replacement_def preprocess_line_def)

lemma css_keeps_typescript_call:
  "occurrences (str_replace s css_anchor css_replacement) typescript_call =
   occurrences s typescript_call"
  by (rule replace_keeps) (simp_all add: css_anchor_def css_replacement_def typescript_call_def)

lemma css_adds_ts_imports:
  "occurrences (str_replace s css_anchor css_replacement) ts_imports =
   occurrences s ts_imports + (if str_includes s css_anchor then 1 else 0)"
  by (rule replace_count) (simp_all add: css_anchor_def css_replacement_def ts_imports_def)

text \<open>The second replacement.\<close>

lemma entry_keeps_options_anchor:
  "occurrences (str_replace s entry_js entry_ts) options_anchor = occurrences s options_anchor"
  by (rule replace_keeps) (simp_all add: entry_js_def entry_ts_def options_anchor_def)

lemma entry_keeps_commonjs_anchor:
  "occurrences (str_replace s entry_js entry_ts) commonjs_anchor =
   occurrences s commonjs_anchor"
  by (rule replace_keeps) (simp_all add: entry_js_def entry_ts_def commonjs_anchor_def)

lemma entry_keeps_css_replacement:
  "occurrences (str_replace s entry_js entry_ts) css_replacement =
   occurrences s css_replacement"
  by (rule replace_keeps) (simp_all add: entry_js_def entry_ts_def css_replacement_def)

lemma entry_keeps_ts_imports:
  "occurrences (str_replace s entry_js entry_ts) ts_imports = occurrences s ts_imports"
  by (rule replace_keeps) (simp_all add: entry_js_def entry_ts_def ts_imports_def)

lemma entry_keeps_preprocess_line:
  "occurrences (str_replace s entry_js entry_ts) preprocess_line =
   occurrences s preprocess_line"
  by (rule replace_keeps) (simp_all add: entry_js_def entry_ts_def preprocess_line_def)

lemma entry_keeps_typescript_call:
  "occurrences (str_replace s entry_js entry_ts) typescript_call =
   occurrences s typescript_call"
  by (rule replace_keeps) (simp_all add: entry_js_def entry_ts_def typescript_call_def)

lemma entry_adds_entry_ts:
  "occurrences (str_replace s entry_js entry_ts) entry_ts =
   occurrences s entry_ts + (if str_includes s entry_js then 1 else 0)"
  by (rule replace_count) (simp_all add: entry_js_def entry_ts_def)

text \<open>The third replacement.\<close>

lemma options_keeps_commonjs_anchor:
  "occurrences (str_replace s options_anchor options_replacement) commonjs_anchor =
   occurrences s commonjs_anchor"
  by (rule replace_keeps)
    (simp_all add: options_anchor_def options_replacement_def commonjs_anchor_def)

lemma options_keeps_css_replacement:
  "occurrences (str_replace s options_anchor options_replacement) css_replacement =
   occurrences s css_replacement"
  by (rule replace_keeps)
    (simp_all add: options_anchor_def options_replacement_def css_replacement_def)

lemma options_keeps_entry_ts:
  "occurrences (str_replace s options_anchor options_replacement) entry_ts =
   occurrences s entry_ts"
  by (rule replace_keeps)
    (simp_all add: options_anchor_def options_replacement_def entry_ts_def)

lemma options_keeps_ts_imports:
  "occurrences (str_replace s options_anchor options_replacement) ts_imports =
   occurrences s ts_imports"
  by (rule replace_keeps)
    (simp_all add: options_anchor_def options_replacement_def ts_imports_def)

lemma options_keeps_typescript_call:
  "occurrences (str_replace s options_anchor options_replacement) typescript_call =
   occurrences s typescript_call"
  by (rule replace_keeps)
    (simp_all add: options_anchor_def options_replacement_def typescript_call_def)

lemma options_adds_preprocess_line:
  "occurrences (str_replace s options_anchor options_replacement) preprocess_line =
   occurrences s preprocess_line + (if str_includes s options_anchor then 1 else 0)"
  by (rule replace_count)
    (simp_all add: options_anchor_def options_replacement_def preprocess_line_def)

text \<open>The fourth replacement.\<close>

lemma commonjs_keeps_css_replacement:
  "occurrences (str_replace s commonjs_anchor commonjs_replacement) css_replacement =
   occurrences s css_replacement"
  by (rule replace_keeps)
    (simp_all add: commonjs_anchor_def commonjs_replacement_def css_replacement_def)

lemma commonjs_keeps_entry_ts:
  "occurrences (str_replace s commonjs_anchor commonjs_replacement) entry_ts =
   occurrences s entry_ts"
  by (rule replace_keeps)
    (simp_all add: commonjs_anchor_def commonjs_replacement_def entry_ts_def)

lemma commonjs_keeps_options_replacement:
  "occurrences (str_replace s commonjs_anchor commonjs_replacement) options_replacement =
   occurrences s options_replacement"
  by (rule replace_keeps)
    (simp_all add: commonjs_anchor_def commonjs_replacement_def options_replacement_def)

lemma commonjs_keeps_ts_imports:
  "occurrences (str_replace s commonjs_anchor commonjs_replacement) ts_imports =
   occurrences s ts_imports"
  by (rule replace_keeps)
    (simp_all add: commonjs_anchor_def commonjs_replacement_def ts_imports_def)

lemma commonjs_keeps_preprocess_line:
  "occurrences (str_replace s commonjs_anchor commonjs_replacement) preprocess_line =
   occurrences s preprocess_line"
  by (rule replace_keeps)
    (simp_all add: commonjs_anchor_def commonjs_replacement_def preprocess_line_def)

lemma commonjs_adds_typescript_call:
  "occurrences (str_replace s commonjs_anchor commonjs_replacement) typescript_call =
   occurrences s typescript_call + (if str_includes s commonjs_anchor then 1 else 0)"
  by (rule replace_count)
    (simp_all add: commonjs_anchor_def commonjs_replacement_def typescript_call_def)

subsection \<open>One run over the bundler configuration\<close>

text \<open>
  What a run adds wherever the three anchors of the insertions are present; the anchor of
  the entry point is not needed for it.
\<close>

lemma convert_rollupConfig_insertions:
  assumes a1: "str_includes s css_anchor"
    and a3: "str_includes s options_anchor"
    and a4: "str_includes s commonjs_anchor"
  shows "str_includes (convert_rollupConfig s) css_replacement"
    and "str_includes (convert_rollupConfig s) options_replacement"
    and "str_includes (convert_rollupConfig s) commonjs_replacement"
    and "occurrences (convert_rollupConfig s) ts_imports = occurrences s ts_imports + 1"
    and "occurrences (convert_rollupConfig s) preprocess_line =
         occurrences s preprocess_line + 1"
    and "occurrences (convert_rollupConfig s) typescript_call =
         occurrences s typescript_call + 1"
    and "length (convert_rollupConfig s) =
         length s + length ts_imports + length preprocess_line + length typescript_call"
proof -
  define s1 where "s1 = str_replace s css_anchor css_replacement"
  define s2 where "s2 = str_replace s1 entry_js entry_ts"
  define s3 where "s3 = str_replace s2 options_anchor options_replacement"
  define s4 where "s4 = str_replace s3 commonjs_anchor commonjs_replacement"
  have conv: "convert_rollupConfig s = s4"
    by (simp add: convert_rollupConfig_def s1_def s2_def s3_def s4_def)
  have "occurrences s2 options_anchor = occurrences s options_anchor"
    by (simp add: s1_def s2_def css_keeps_options_anchor entry_keeps_options_anchor)
  then have i3: "str_includes s2 options_anchor"
    using a3 by (rule includes_by_count)
  have "occurrences s3 commonjs_anchor = occurrences s commonjs_anchor"
    by (simp add: s1_def s2_def s3_def css_keeps_commonjs_anchor
        entry_keeps_commonjs_anchor options_keeps_commonjs_anchor)
  then have i4: "str_includes s3 commonjs_anchor"
    using a4 by (rule includes_by_count)
  have c1: "str_includes s1 css_replacement"
    unfolding s1_def using a1 by (rule str_replace_includes)
  have "occurrences s4 css_replacement = occurrences s1 css_replacement"
    by (simp add: s2_def s3_def s4_def entry_keeps_css_replacement
        options_keeps_css_replacement commonjs_keeps_css_replacement)
  then show "str_includes (convert_rollupConfig s) css_replacement"
    unfolding conv using c1 by (rule includes_by_count)
  have c3: "str_includes s3 options_replacement"
    unfolding s3_def using i3 by (rule str_replace_includes)
  have "occurrences s4 options_replacement = occurrences s3 options_replacement"
    by (simp add: s4_def commonjs_keeps_options_replacement)
  then show "str_includes (convert_rollupConfig s) options_replacement"
    unfolding conv using c3 by (rule includes_by_count)
  show "str_includes (convert_rollupConfig s) commonjs_replacement"
    unfolding conv s4_def using i4 by (rule str_replace_includes)
  show "occurrences (convert_rollupConfig s) ts_imports = occurrences s ts_imports + 1"
    unfolding conv s4_def s3_def s2_def s1_def using a1
    by (simp add: commonjs_keeps_ts_imports options_keeps_ts_imports
        entry_keeps_ts_imports css_adds_ts_imports)
  have "occurrences s2 preprocess_line = occurrences s preprocess_line"
    by (simp add: s2_def s1_def entry_keeps_preprocess_line css_keeps_preprocess_line)
  moreover have "occurrences s3 preprocess_line = occurrences s2 preprocess_line + 1"
    using i3 by (simp add: s3_def options_adds_preprocess_line)
  moreover have "occurrences s4 preprocess_line = occurrences s3 preprocess_line"
    by (simp add: s4_def commonjs_keeps_preprocess_line)
  ultimately show "occurrences (convert_rollupConfig s) preprocess_line =
        occurrences s preprocess_line + 1"
    by (simp add: conv)
  have "occurrences s3 typescript_call = occurrences s typescript_call"
    by (simp add: s3_def s2_def s1_def options_keeps_typescript_call
        entry_keeps_typescript_call css_keeps_typescript_call)
  moreover have "occurrences s4 typescript_call = occurrences s3 typescript_call + 1"
    using i4 by (simp add: s4_def commonjs_adds_typescript_call)
  ultimately show "occurrences (convert_rollupConfig s) typescript_call =
        occurrences s typescript_call + 1"
    by (simp add: conv)
  have l1: "length s1 = length s + length ts_imports"
    using str_replace_length[of s css_anchor css_replacement] a1
    by (simp add: s1_def css_replacement_eq)
  have "length entry_ts = length entry_js"
    by (simp add: entry_js_def entry_ts_def)
  with str_replace_length[of s1 entry_js entry_ts] have l2: "length s2 = length s1"
    by (simp add: s2_def split: if_splits)
  have l3: "length s3 = length s2 + length preprocess_line"
    using str_replace_length[of s2 options_anchor options_replacement] i3
    by (simp add: s3_def options_replacement_eq)
  have l4: "length s4 = length s3 + length typescript_call"
    using str_replace_length[of s3 commonjs_anchor commonjs_replacement] i4
    by (simp add: s4_def commonjs_replacement_eq)
  show "length (convert_rollupConfig s) =
        length s + length ts_imports + length preprocess_line + length typescript_call"
    using l1 l2 l3 l4 by (simp add: conv)
qed

lemma convert_rollupConfig_entry:
  assumes a1: "str_includes s css_anchor" and a2: "str_includes s entry_js"
  shows "occurrences (convert_rollupConfig s) entry_ts = occurrences s entry_ts + 1"
proof -
  have "str_includes (str_replace s css_anchor css_replacement) entry_js"
    using css_keeps_entry_js a2 by (rule includes_by_count)
  then show ?thesis
    by (simp add: convert_rollupConfig_def commonjs_keeps_entry_ts options_keeps_entry_ts
        entry_adds_entry_ts css_keeps_entry_ts)
qed

subsection \<open>The two replacements in the root component\<close>

lemma tag_adds_script_tag_ts:
  "occurrences (str_replace s script_tag script_tag_ts) script_tag_ts =
   occurrences s script_tag_ts + (if str_includes s script_tag then 1 else 0)"
  by (rule replace_count) (simp_all add: script_tag_def script_tag_ts_def)

lemma tag_keeps_name_decl:
  "occurrences (str_replace s script_tag script_tag_ts) name_decl = occurrences s name_decl"
  by (rule replace_keeps) (simp_all add: script_tag_def script_tag_ts_def name_decl_def)

lemma tag_keeps_name_decl_ts:
  "occurrences (str_replace s script_tag script_tag_ts) name_decl_ts =
   occurrences s name_decl_ts"
  by (rule replace_keeps) (simp_all add: script_tag_def script_tag_ts_def name_decl_ts_def)

lemma decl_keeps_script_tag_ts:
  "occurrences (str_replace s name_decl name_decl_ts) script_tag_ts =
   occurrences s script_tag_ts"
  by (rule replace_keeps) (simp_all add: name_decl_def name_decl_ts_def script_tag_ts_def)

lemma decl_adds_name_decl_ts:
  "occurrences (str_replace s name_decl name_decl_ts) name_decl_ts =
   occurrences s name_decl_ts + (if str_includes s name_decl then 1 else 0)"
  by (rule replace_count) (simp_all add: name_decl_def name_decl_ts_def)

lemma tag_ts_clear_of_decl:
  "clear_of (tl name_decl) script_tag_ts" "clear_of script_tag_ts name_decl"
  by (simp_all add: name_decl_def script_tag_ts_def)

lemma convert_appFile_absent:
  assumes "\<not> str_includes appFile script_tag" and "\<not> str_includes appFile name_decl"
  shows "convert_appFile appFile = appFile"
  using assms by (simp add: convert_appFile_def str_replace_absent)

lemma tag_splice_name_decl:
  "occurrences (x @ script_tag @ y) name_decl = occurrences (x @ script_tag_ts @ y) name_decl"
proof -
  have ok: "entry_ok (tl name_decl) script_tag script_tag_ts"
    by (simp add: script_tag_def script_tag_ts_def name_decl_def)
  have "starts script_tag_ts y name_decl = starts script_tag y name_decl"
    by (simp add: script_tag_def script_tag_ts_def name_decl_def)
  with occurrences_splice[OF ok, of x y] show ?thesis by simp
qed

lemma anchors_not_empty: "script_tag \<noteq> []" "name_decl \<noteq> []"
  by (simp_all add: script_tag_def name_decl_def)

text \<open>
  The two replaced occurrences are the first ones of the component: neither anchor occurs
  in the text that ends one character before the end of its replaced occurrence.
\<close>

lemma convert_appFile_splits:
  assumes s: "str_includes appFile script_tag" and e: "str_includes appFile name_decl"
  shows "\<exists>a b c.
     appFile = a @ script_tag @ b @ name_decl @ c \<and>
     convert_appFile appFile = a @ script_tag_ts @ b @ name_decl_ts @ c \<and>
     \<not> str_includes (butlast (a @ script_tag)) script_tag \<and>
     \<not> str_includes (butlast (a @ script_tag @ b @ name_decl)) name_decl \<or>
     appFile = a @ name_decl @ b @ script_tag @ c \<and>
     convert_appFile appFile = a @ name_decl_ts @ b @ script_tag_ts @ c \<and>
     \<not> str_includes (butlast (a @ name_decl)) name_decl \<and>
     \<not> str_includes (butlast (a @ name_decl @ b @ script_tag)) script_tag"
proof -
  define mid where "mid = str_replace appFile script_tag script_tag_ts"
  from str_replace_present[OF anchors_not_empty(1) s, of script_tag_ts] obtain p1 q1 where
    1: "appFile = p1 @ script_tag @ q1" "mid = p1 @ script_tag_ts @ q1"
      "\<not> str_includes (butlast (p1 @ script_tag)) script_tag"
    unfolding mid_def by blast
  have "str_includes mid name_decl"
    unfolding mid_def using tag_keeps_name_decl e by (rule includes_by_count)
  from str_replace_present[OF anchors_not_empty(2) this, of name_decl_ts] obtain p2 q2 where
    2: "mid = p2 @ name_decl @ q2" "convert_appFile appFile = p2 @ name_decl_ts @ q2"
      "\<not> str_includes (butlast (p2 @ name_decl)) name_decl"
    unfolding mid_def convert_appFile_def by blast
  from 1(2) 2(1) have "p1 @ script_tag_ts @ q1 = p2 @ name_decl @ q2" by simp
  from occurrences_apart[OF this tag_ts_clear_of_decl]
  consider b where "p2 = p1 @ script_tag_ts @ b" "q1 = b @ name_decl @ q2"
    | b where "p1 = p2 @ name_decl @ b" "q2 = b @ script_tag_ts @ q1"
    by blast
  then show ?thesis
  proof cases
    case 1
    from 2(3) 1(1) have "\<not> str_includes (p1 @ script_tag_ts @ (b @ butlast name_decl)) name_decl"
      by (simp add: butlast_append anchors_not_empty)
    then have "occurrences (p1 @ script_tag_ts @ (b @ butlast name_decl)) name_decl = 0"
      using occurrences_pos_iff[of "p1 @ script_tag_ts @ (b @ butlast name_decl)" name_decl]
      by simp
    then have "occurrences (p1 @ script_tag @ (b @ butlast name_decl)) name_decl = 0"
      by (simp only: tag_splice_name_decl)
    then have "\<not> str_includes (p1 @ script_tag @ (b @ butlast name_decl)) name_decl"
      using occurrences_pos_iff[of "p1 @ script_tag @ (b @ butlast name_decl)" name_decl]
      by simp
    then have first: "\<not> str_includes (butlast (p1 @ script_tag @ b @ name_decl)) name_decl"
      by (simp add: butlast_append anchors_not_empty)
    from 1 \<open>appFile = p1 @ script_tag @ q1\<close> 2(2)
    have "appFile = p1 @ script_tag @ b @ name_decl @ q2"
      "convert_appFile appFile = p1 @ script_tag_ts @ b @ name_decl_ts @ q2" by simp_all
    with \<open>\<not> str_includes (butlast (p1 @ script_tag)) script_tag\<close> first
    show ?thesis by blast
  next
    case 2
    from 2(1) \<open>\<not> str_includes (butlast (p1 @ script_tag)) script_tag\<close>
    have first: "\<not> str_includes (butlast (p2 @ name_decl @ b @ script_tag)) script_tag"
      by simp
    from 2 \<open>appFile = p1 @ script_tag @ q1\<close>
      \<open>convert_appFile appFile = p2 @ name_decl_ts @ q2\<close>
    have "appFile = p2 @ name_decl @ b @ script_tag @ q1"
      "convert_appFile appFile = p2 @ name_decl_ts @ b @ script_tag_ts @ q1" by simp_all
    with \<open>\<not> str_includes (butlast (p2 @ name_decl)) name_decl\<close> first
    show ?thesis by blast
  qed
qed

lemma convert_appFile_counts:
  assumes s: "str_includes appFile script_tag" and e: "str_includes appFile name_decl"
  shows "occurrences (convert_appFile appFile) script_tag_ts =
         occurrences appFile script_tag_ts + 1"
    and "occurrences (convert_appFile appFile) name_decl_ts =
         occurrences appFile name_decl_ts + 1"
proof -
  have "str_includes (str_replace appFile script_tag script_tag_ts) name_decl"
    using tag_keeps_name_decl e by (rule includes_by_count)
  then show "occurrences (convert_appFile appFile) name_decl_ts =
         occurrences appFile name_decl_ts + 1"
    by (simp add: convert_appFile_def decl_adds_name_decl_ts tag_keeps_name_decl_ts)
  show "occurrences (convert_appFile appFile) script_tag_ts =
         occurrences appFile script_tag_ts + 1"
    using s by (simp add: convert_appFile_def decl_keeps_script_tag_ts tag_adds_script_tag_ts)
qed

section \<open>Properties of the file system operations\<close>

lemma lookup_root [simp]: "lookup fs [] = Some Dir"
  by (simp add: lookup_def)

lemma lookup_update:
  "p \<noteq> [] \<Longrightarrow> lookup (AList.update p n fs) q = (if q = p then Some n else lookup fs q)"
  by (simp add: lookup_def update_conv')

lemma lookup_delete:
  "p \<noteq> [] \<Longrightarrow> lookup (AList.delete p fs) q = (if q = p then None else lookup fs q)"
  by (simp add: lookup_def delete_conv')

lemma lookup_None_iff: "lookup fs q = None \<longleftrightarrow> q \<noteq> [] \<and> q \<notin> fst ` set fs"
  by (simp add: lookup_def map_of_eq_None_iff)

lemma lookup_exists_iff: "lookup fs q \<noteq> None \<longleftrightarrow> q = [] \<or> q \<in> fst ` set fs"
  unfolding lookup_None_iff by blast

lemma entries_iff: "n \<in> set (entries fs d) \<longleftrightarrow> lookup fs (d @ [n]) \<noteq> None"
proof
  assume "n \<in> set (entries fs d)"
  then obtain p x where "(p, x) \<in> set fs" "p \<noteq> []" "butlast p = d" "last p = n"
    by (auto simp: entries_def)
  then have "(d @ [n], x) \<in> set fs" by (metis append_butlast_last_id)
  then have "d @ [n] \<in> fst ` set fs" by force
  then show "lookup fs (d @ [n]) \<noteq> None" unfolding lookup_exists_iff by blast
next
  assume "lookup fs (d @ [n]) \<noteq> None"
  then have "d @ [n] \<in> fst ` set fs" unfolding lookup_exists_iff by simp
  then obtain x where "(d @ [n], x) \<in> set fs" by auto
  then show "n \<in> set (entries fs d)" by (force simp: entries_def)
qed

lemma entries_empty_iff: "entries fs d = [] \<longleftrightarrow> (\<forall>n. lookup fs (d @ [n]) = None)"
proof -
  have "entries fs d = [] \<longleftrightarrow> set (entries fs d) = {}" by simp
  also have "\<dots> \<longleftrightarrow> (\<forall>n. n \<notin> set (entries fs d))" by auto
  finally show ?thesis by (simp add: entries_iff)
qed

lemma entries_single_iff:
  "length (entries fs d) = 1 \<and> entries fs d ! 0 = n \<longleftrightarrow> set (entries fs d) = {n}"
proof -
  have dist: "distinct (entries fs d)" by (simp add: entries_def)
  show ?thesis
  proof
    assume "length (entries fs d) = 1 \<and> entries fs d ! 0 = n"
    then have "entries fs d = [n]" by (cases "entries fs d") auto
    then show "set (entries fs d) = {n}" by simp
  next
    assume s: "set (entries fs d) = {n}"
    with dist have "length (entries fs d) = card {n}" by (metis distinct_card)
    then have "length (entries fs d) = 1" by simp
    moreover from this s have "entries fs d ! 0 = n"
      by (cases "entries fs d") auto
    ultimately show "length (entries fs d) = 1 \<and> entries fs d ! 0 = n" by simp
  qed
qed

subsection \<open>Writing, deleting\<close>

lemma writeFileSync_Inr:
  assumes "writeFileSync fs p body = Inr fs'"
  shows "p \<noteq> []" and "fs' = AList.update p (File body) fs"
    and "lookup fs (butlast p) = Some Dir" and "lookup fs p \<noteq> Some Dir"
  using assms
  by (auto simp: writeFileSync_def split: option.splits node.splits)

lemma lookup_writeFileSync:
  "writeFileSync fs p body = Inr fs' \<Longrightarrow>
   lookup fs' q = (if q = p then Some (File body) else lookup fs q)"
  using writeFileSync_Inr[of fs p body fs'] by (simp add: lookup_update)

lemma writeFileSync_same:
  assumes "lookup fs p = Some (File body)" and "lookup fs (butlast p) = Some Dir"
  shows "writeFileSync fs p body = Inr fs"
proof -
  from assms(1) have "p \<noteq> []" by auto
  with assms(1) have "map_of fs p = Some (File body)" by (simp add: lookup_def)
  then have "AList.update p (File body) fs = fs" by (rule update_triv)
  with assms show ?thesis by (simp add: writeFileSync_def)
qed

lemma unlinkSync_Inr:
  assumes "unlinkSync fs p = Inr fs'"
  shows "p \<noteq> []" and "fs' = AList.delete p fs" and "\<exists>body. lookup fs p = Some (File body)"
  using assms
  by (auto simp: unlinkSync_def split: option.splits node.splits)

lemma lookup_unlinkSync:
  "unlinkSync fs p = Inr fs' \<Longrightarrow> lookup fs' q = (if q = p then None else lookup fs q)"
  using unlinkSync_Inr[of fs p fs'] by (simp add: lookup_delete)

lemma unlinkSync_file:
  "lookup fs p = Some (File body) \<Longrightarrow> unlinkSync fs p = Inr (AList.delete p fs)"
  by (simp add: unlinkSync_def)

lemma rmdirSync_Inr:
  assumes "rmdirSync fs d = Inr fs'"
  shows "d \<noteq> []" and "fs' = AList.delete d fs" and "lookup fs d = Some Dir"
    and "entries fs d = []"
  using assms
  by (auto simp: rmdirSync_def split: option.splits node.splits if_splits)

lemma lookup_rmdirSync:
  "rmdirSync fs d = Inr fs' \<Longrightarrow> lookup fs' q = (if q = d then None else lookup fs q)"
  using rmdirSync_Inr[of fs d fs'] by (simp add: lookup_delete)

subsection \<open>Renaming\<close>

lemma map_of_moved_None:
  "\<not> prefix b q \<Longrightarrow>
   map_of [(b @ drop (length a) p, n). (p, n) \<leftarrow> fs, prefix a p] q = None"
  by (induction fs) auto

lemma map_of_filter_key:
  "map_of [(p, n) \<leftarrow> fs. P p] q = (if P q then map_of fs q else None)"
  by (induction fs) auto

lemma lookup_move_tree_other:
  assumes "\<not> prefix a q" and "\<not> prefix b q"
  shows "lookup (move_tree a b fs) q = lookup fs q"
proof -
  from assms(2) have "q \<noteq> b" by auto
  with assms show ?thesis
    by (simp add: lookup_def move_tree_def map_add_def map_of_moved_None map_of_filter_key)
qed

lemma move_tree_exists:
  assumes "lookup fs q \<noteq> None" and "\<not> prefix a q" and "(a, x) \<in> set fs"
  shows "lookup (move_tree a b fs) q \<noteq> None"
proof (cases "q = []")
  case True
  then show ?thesis by simp
next
  case False
  with assms(1) have "q \<in> fst ` set fs" unfolding lookup_exists_iff by simp
  then obtain y where y: "(q, y) \<in> set fs" by auto
  show ?thesis
  proof (cases "q = b")
    case True
    from assms(3) have "(b @ drop (length a) a, x) \<in>
        set [(b @ drop (length a) p, n). (p, n) \<leftarrow> fs, prefix a p]"
      by force
    then have "(b, x) \<in> set (move_tree a b fs)" by (simp add: move_tree_def)
    then have "b \<in> fst ` set (move_tree a b fs)" by force
    with True show ?thesis unfolding lookup_exists_iff by simp
  next
    case False
    with y assms(2) have "(q, y) \<in> set (move_tree a b fs)" by (auto simp: move_tree_def)
    then have "q \<in> fst ` set (move_tree a b fs)" by force
    then show ?thesis unfolding lookup_exists_iff by simp
  qed
qed


lemma renameSync_other:
  assumes "renameSync fs a b = Inr fs'" and "\<not> prefix a q" and "\<not> prefix b q"
  shows "lookup fs' q = lookup fs q"
proof -
  from assms(2,3) have q: "q \<noteq> a" "q \<noteq> b" by auto
  from assms(1) have ne: "a \<noteq> []" "b \<noteq> []"
    by (auto simp: renameSync_def split: if_splits)
  from assms(1) ne consider "fs' = fs"
    | body where "fs' = AList.update b (File body) (AList.delete a fs)"
    | "fs' = move_tree a b fs"
    by (auto simp: renameSync_def split: option.splits node.splits if_splits)
  then show ?thesis
  proof cases
    case 1
    then show ?thesis by simp
  next
    case 2
    with q ne show ?thesis by (simp add: lookup_update lookup_delete)
  next
    case 3
    with assms(2,3) show ?thesis by (simp add: lookup_move_tree_other)
  qed
qed

lemma renameSync_exists:
  assumes "renameSync fs a b = Inr fs'" and "lookup fs q \<noteq> None" and "\<not> prefix a q"
  shows "lookup fs' q \<noteq> None"
proof -
  from assms(3) have q: "q \<noteq> a" by auto
  from assms(1) have ne: "a \<noteq> []" "b \<noteq> []"
    by (auto simp: renameSync_def split: if_splits)
  from assms(1) ne consider "fs' = fs"
    | body where "fs' = AList.update b (File body) (AList.delete a fs)"
    | "fs' = move_tree a b fs" "lookup fs a = Some Dir"
    by (auto simp: renameSync_def split: option.splits node.splits if_splits)
  then show ?thesis
  proof cases
    case 1
    with assms(2) show ?thesis by simp
  next
    case 2
    with q ne assms(2) show ?thesis by (simp add: lookup_update lookup_delete)
  next
    case 3
    from 3(2) ne have "map_of fs a = Some Dir" by (simp add: lookup_def)
    then have "(a, Dir) \<in> set fs" by (rule map_of_SomeD)
    from move_tree_exists[OF assms(2,3) this] 3(1) show ?thesis by simp
  qed
qed




subsection \<open>Creating directories\<close>

lemma mkdir_each_existing:
  "lookup fs q \<noteq> None \<Longrightarrow> lookup (snd (mkdir_each ds fs)) q = lookup fs q"
proof (induction ds arbitrary: fs)
  case Nil
  then show ?case by simp
next
  case (Cons d ds)
  show ?case
  proof (cases "lookup fs d")
    case None
    then have d: "d \<noteq> []" by auto
    from None Cons.prems have "q \<noteq> d" by auto
    with d have same: "lookup (AList.update d Dir fs) q = lookup fs q"
      by (simp add: lookup_update)
    with Cons.prems have "lookup (AList.update d Dir fs) q \<noteq> None" by simp
    from Cons.IH[OF this] same None show ?thesis by simp
  next
    case (Some x)
    with Cons show ?thesis by (cases x) simp_all
  qed
qed

lemma mkdir_each_elsewhere:
  "q \<notin> set ds \<Longrightarrow> lookup (snd (mkdir_each ds fs)) q = lookup fs q"
proof (induction ds arbitrary: fs)
  case Nil
  then show ?case by simp
next
  case (Cons d ds)
  show ?case
  proof (cases "lookup fs d")
    case None
    then have d: "d \<noteq> []" by auto
    from Cons.prems have "q \<noteq> d" "q \<notin> set ds" by auto
    with d Cons.IH[of "AList.update d Dir fs"] None show ?thesis
      by (simp add: lookup_update)
  next
    case (Some x)
    with Cons show ?thesis by (cases x) simp_all
  qed
qed

lemma mkdirSync_recursive_keeps:
  assumes "lookup fs q \<noteq> None \<or> \<not> prefix q p"
  shows "lookup (snd (mkdirSync_recursive fs p)) q = lookup fs q"
proof (cases "lookup fs q \<noteq> None")
  case True
  then show ?thesis unfolding mkdirSync_recursive_def by (rule mkdir_each_existing)
next
  case False
  with assms have "\<not> prefix q p" by simp
  then have "q \<notin> set (prefixes p)" by simp
  then have "q \<notin> set (tl (prefixes p))" by (meson list.set_sel(2) prefixes_not_Nil)
  then show ?thesis unfolding mkdirSync_recursive_def by (rule mkdir_each_elsewhere)
qed

section \<open>Properties of the steps\<close>

lemma exec_append:
  "exec (xs @ ys) st =
     (case exec xs st of (Some e, s) \<Rightarrow> (Some e, s) | (None, s) \<Rightarrow> exec ys s)"
  by (induction xs arbitrary: st) (auto split: prod.splits option.splits)

lemma exec_Cons_None:
  "exec (f # fs) st = (None, st') \<longleftrightarrow> (\<exists>s. f st = (None, s) \<and> exec fs s = (None, st'))"
  by (auto split: prod.splits option.splits)

lemma exec_append_None:
  "exec (xs @ ys) st = (None, st') \<longleftrightarrow>
   (\<exists>s. exec xs st = (None, s) \<and> exec ys s = (None, st'))"
  by (auto simp: exec_append split: prod.splits option.splits)

lemma atomic_None:
  "atomic f st = (None, st') \<longleftrightarrow> (\<exists>fs'. f (files st) = Inr fs' \<and> st' = st\<lparr>files := fs'\<rparr>)"
  by (auto simp: atomic_def split: sum.splits)

lemma atomic_Some: "atomic f st = (Some e, st') \<longleftrightarrow> f (files st) = Inl e \<and> st' = st"
  by (auto simp: atomic_def split: sum.splits)

lemma atomic_Inl: "f (files st) = Inl e \<Longrightarrow> atomic f st = (Some e, st)"
  by (simp add: atomic_def)

lemma atomic_Inr: "f (files st) = Inr fs' \<Longrightarrow> atomic f st = (None, st\<lparr>files := fs'\<rparr>)"
  by (simp add: atomic_def)

lemma preservesD: "preserves P f \<Longrightarrow> P st \<Longrightarrow> P (snd (f st))"
  by (simp add: preserves_def)

lemma preserves_exec: "list_all (preserves P) steps \<Longrightarrow> preserves P (exec steps)"
proof (induction steps)
  case Nil
  show ?case by (simp add: preserves_def)
next
  case (Cons f fs)
  then have f: "preserves P f" and fs: "preserves P (exec fs)" by simp_all
  show ?case
    unfolding preserves_def
  proof (intro allI impI)
    fix st :: state assume "P st"
    with f have 1: "P (snd (f st))" by (rule preservesD)
    obtain r s where fst: "f st = (r, s)" by (cases "f st")
    with 1 have "P s" by simp
    with fs have "P (snd (exec fs s))" by (rule preservesD)
    with \<open>P s\<close> fst show "P (snd (exec (f # fs) st))" by (cases r) simp_all
  qed
qed

lemma preserves_atomic:
  assumes "\<And>fs fs'. f fs = Inr fs' \<Longrightarrow> Q fs \<Longrightarrow> Q fs'"
  shows "preserves (\<lambda>st. Q (files st)) (atomic f)"
  unfolding preserves_def
proof (intro allI impI)
  fix st :: state assume "Q (files st)"
  with assms show "Q (files (snd (atomic f st)))"
    by (cases "f (files st)") (auto simp: atomic_def)
qed

lemma preserves_console_log: "preserves (\<lambda>st. Q (files st)) (console_log msg)"
  by (simp add: preserves_def console_log_def)

lemma preserves_step_advise: "preserves (\<lambda>st. Q (files st)) (step_advise cmd)"
  by (simp add: preserves_def step_advise_def console_log_def)

lemma preserves_step_mkdir_vscode:
  assumes "\<And>fs. Q fs \<Longrightarrow> Q (snd (mkdirSync_recursive fs (vscodePath cmd)))"
  shows "preserves (\<lambda>st. Q (files st)) (step_mkdir_vscode cmd)"
  unfolding preserves_def
proof (intro allI impI)
  fix st :: state assume "Q (files st)"
  with assms have "Q (snd (mkdirSync_recursive (files st) (vscodePath cmd)))" .
  then show "Q (files (snd (step_mkdir_vscode cmd st)))"
    by (cases "mkdirSync_recursive (files st) (vscodePath cmd)")
      (simp add: step_mkdir_vscode_def)
qed

subsection \<open>Paths that a step does not touch\<close>

lemma and_then_Inr: "and_then r f = Inr y \<longleftrightarrow> (\<exists>x. r = Inr x \<and> f x = Inr y)"
  by (cases r) (simp_all add: and_then_def)

lemma step_packageJSON_other:
  "step_packageJSON rt cmd fs = Inr fs' \<Longrightarrow> q \<noteq> packageJSONPath cmd \<Longrightarrow>
   lookup fs' q = lookup fs q"
  by (auto simp: step_packageJSON_def and_then_Inr lookup_writeFileSync split: option.splits)

lemma step_appFile_other:
  "step_appFile cmd fs = Inr fs' \<Longrightarrow> q \<noteq> appSveltePath cmd \<Longrightarrow> lookup fs' q = lookup fs q"
  by (auto simp: step_appFile_def and_then_Inr lookup_writeFileSync)

lemma step_rollupConfig_other:
  "step_rollupConfig cmd fs = Inr fs' \<Longrightarrow> q \<noteq> rollupConfigPath cmd \<Longrightarrow>
   lookup fs' q = lookup fs q"
  by (auto simp: step_rollupConfig_def and_then_Inr lookup_writeFileSync)

lemma step_DS_store_other:
  "step_DS_store cmd fs = Inr fs' \<Longrightarrow> q \<noteq> DS_storePath cmd \<Longrightarrow> lookup fs' q = lookup fs q"
  by (auto simp: step_DS_store_def and_then_Inr lookup_unlinkSync split: if_splits)

lemma step_rmdir_other:
  "step_rmdir cmd fs = Inr fs' \<Longrightarrow> q \<noteq> dirname cmd \<Longrightarrow> lookup fs' q = lookup fs q"
  by (auto simp: step_rmdir_def and_then_Inr lookup_rmdirSync split: if_splits)

lemma step_rmdir_not_file:
  assumes "step_rmdir cmd fs = Inr fs'" and "lookup fs q = Some (File body)"
  shows "lookup fs' q = Some (File body)"
proof (cases "q = dirname cmd")
  case True
  from assms(1) consider "fs' = fs" | "rmdirSync fs (dirname cmd) = Inr fs'"
    by (auto simp: step_rmdir_def and_then_Inr split: if_splits)
  then show ?thesis
  proof cases
    case 1
    with assms(2) show ?thesis by simp
  next
    case 2
    from rmdirSync_Inr(3)[OF this] assms(2) True show ?thesis by simp
  qed
next
  case False
  with assms show ?thesis by (simp add: step_rmdir_other)
qed



text \<open>A step that writes a file leaves every directory a directory.\<close>

lemma writeFileSync_dir:
  "writeFileSync fs p body = Inr fs' \<Longrightarrow> lookup fs q = Some Dir \<Longrightarrow> lookup fs' q = Some Dir"
  using writeFileSync_Inr(4)[of fs p body fs'] by (auto simp: lookup_writeFileSync)

lemma writeFileSync_exists:
  "writeFileSync fs p body = Inr fs' \<Longrightarrow> lookup fs q \<noteq> None \<Longrightarrow> lookup fs' q \<noteq> None"
  by (auto simp: lookup_writeFileSync)

subsection \<open>Paths in the target directory\<close>

lemma path2_neq_path1 [simp]: "xs @ [a, b] \<noteq> xs @ [c]" "xs @ [c] \<noteq> xs @ [a, b]"
  by simp_all


lemmas target_paths =
  packageJSONPath_def beforeMainJSPath_def afterMainTSPath_def appSveltePath_def
  rollupConfigPath_def tsconfigPath_def svelteConfigPath_def dtsPath_def vscodePath_def
  extensionsPath_def DS_storePath_def

subsection \<open>What each step keeps at a path\<close>

lemma keep_packageJSON:
  "q \<noteq> packageJSONPath cmd \<Longrightarrow>
   preserves (\<lambda>st. lookup (files st) q = v) (atomic (step_packageJSON rt cmd))"
  by (rule preserves_atomic) (simp add: step_packageJSON_other)

lemma keep_rename:
  "\<not> prefix (beforeMainJSPath cmd) q \<Longrightarrow> \<not> prefix (afterMainTSPath cmd) q \<Longrightarrow>
   preserves (\<lambda>st. lookup (files st) q = v) (atomic (step_rename cmd))"
  by (rule preserves_atomic) (simp add: step_rename_def renameSync_other)

lemma keep_appFile:
  "q \<noteq> appSveltePath cmd \<Longrightarrow>
   preserves (\<lambda>st. lookup (files st) q = v) (atomic (step_appFile cmd))"
  by (rule preserves_atomic) (simp add: step_appFile_other)

lemma keep_rollupConfig:
  "q \<noteq> rollupConfigPath cmd \<Longrightarrow>
   preserves (\<lambda>st. lookup (files st) q = v) (atomic (step_rollupConfig cmd))"
  by (rule preserves_atomic) (simp add: step_rollupConfig_other)

lemma keep_tsconfig:
  "q \<noteq> tsconfigPath cmd \<Longrightarrow>
   preserves (\<lambda>st. lookup (files st) q = v) (atomic (step_tsconfig cmd))"
  by (rule preserves_atomic) (simp add: step_tsconfig_def lookup_writeFileSync)

lemma keep_svelteConfig:
  "q \<noteq> svelteConfigPath cmd \<Longrightarrow>
   preserves (\<lambda>st. lookup (files st) q = v) (atomic (step_svelteConfig cmd))"
  by (rule preserves_atomic) (simp add: step_svelteConfig_def lookup_writeFileSync)

lemma keep_dts:
  "q \<noteq> dtsPath cmd \<Longrightarrow>
   preserves (\<lambda>st. lookup (files st) q = v) (atomic (step_dts cmd))"
  by (rule preserves_atomic) (simp add: step_dts_def lookup_writeFileSync)

lemma keep_extensions:
  "q \<noteq> extensionsPath cmd \<Longrightarrow>
   preserves (\<lambda>st. lookup (files st) q = v) (atomic (step_extensions cmd))"
  by (rule preserves_atomic) (simp add: step_extensions_def lookup_writeFileSync)

lemma keep_unlink_script:
  "q \<noteq> filename cmd \<Longrightarrow>
   preserves (\<lambda>st. lookup (files st) q = v) (atomic (step_unlink_script cmd))"
  by (rule preserves_atomic) (simp add: step_unlink_script_def lookup_unlinkSync)

lemma keep_DS_store:
  "q \<noteq> DS_storePath cmd \<Longrightarrow>
   preserves (\<lambda>st. lookup (files st) q = v) (atomic (step_DS_store cmd))"
  by (rule preserves_atomic) (simp add: step_DS_store_other)

lemma keep_rmdir:
  "q \<noteq> dirname cmd \<Longrightarrow>
   preserves (\<lambda>st. lookup (files st) q = v) (atomic (step_rmdir cmd))"
  by (rule preserves_atomic) (simp add: step_rmdir_other)

lemma keep_rmdir_file:
  "preserves (\<lambda>st. lookup (files st) q = Some (File body)) (atomic (step_rmdir cmd))"
  by (rule preserves_atomic) (simp add: step_rmdir_not_file)

lemma keep_mkdir_vscode:
  "v \<noteq> None \<or> \<not> prefix q (vscodePath cmd) \<Longrightarrow>
   preserves (\<lambda>st. lookup (files st) q = v) (step_mkdir_vscode cmd)"
  by (rule preserves_step_mkdir_vscode) (auto simp: mkdirSync_recursive_keeps)




lemma keep_log:
  "preserves (\<lambda>st. lookup (files st) q = v) (console_log msg)"
  "preserves (\<lambda>st. lookup (files st) q = v) (step_advise cmd)"
  by (simp_all add: preserves_def console_log_def step_advise_def)

text \<open>The steps after the manifest, the steps after the renaming, and the last four.\<close>

lemma keep_after_conversion_file:
  assumes "truthy (argv2 cmd) \<or> q \<noteq> filename cmd"
    and "q \<noteq> extensionsPath cmd"
    and "\<And>d. q \<noteq> d @ [''.DS_store'']"
  shows "list_all (preserves (\<lambda>st. lookup (files st) q = Some (File body)))
           (cleanup_steps cmd @ finish_steps cmd)"
  using assms
  by (auto simp: cleanup_steps_def finish_steps_def keep_unlink_script keep_DS_store
      keep_rmdir_file keep_mkdir_vscode keep_extensions keep_log DS_storePath_def)

section \<open>Properties of the manifest merge\<close>

lemma Object_assign_Inl: "Object_assign t src = Inl e \<Longrightarrow> e = TypeError"
  by (cases "(t, src)" rule: Object_assign.cases) auto

lemma merge_packageJSON_undefined:
  assumes "get_prop j ''devDependencies'' = Inr None \<or> get_prop j ''scripts'' = Inr None"
  shows "merge_packageJSON j = Inl TypeError"
proof (cases "get_prop j ''devDependencies'' = Inr None")
  case True
  then show ?thesis by (simp add: merge_packageJSON_def and_then_def)
next
  case False
  with assms have scr: "get_prop j ''scripts'' = Inr None" by simp
  then obtain kvs where j: "j = JObj kvs"
    using False by (cases j) auto
  with False obtain d where d: "map_of kvs ''devDependencies'' = Some d" by auto
  from scr j have s: "map_of kvs ''scripts'' = None" by simp
  show ?thesis
  proof (cases "Object_assign (Some d) devDependencies_added")
    case (Inl e)
    then have "e = TypeError" by (rule Object_assign_Inl)
    with Inl j d show ?thesis by (simp add: merge_packageJSON_def and_then_def)
  next
    case (Inr d')
    with j d s show ?thesis
      by (simp add: merge_packageJSON_def and_then_def update_conv')
  qed
qed

lemma merge_packageJSON_object:
  assumes "map_of pkg ''devDependencies'' = Some (JObj dev)"
    and "map_of pkg ''scripts'' = Some (JObj scr)"
  shows "merge_packageJSON (JObj pkg) =
     Inr (JObj (AList.update ''scripts''
       (JObj (fold (\<lambda>(k, v). AList.update k v) scripts_added scr))
       (AList.update ''devDependencies''
          (JObj (fold (\<lambda>(k, v). AList.update k v) devDependencies_added dev)) pkg)))"
  using assms by (simp add: merge_packageJSON_def and_then_def update_conv')

lemma update_present_keys:
  "map_of al k = Some x \<Longrightarrow> map fst (AList.update k v al) = map fst al"
proof -
  assume "map_of al k = Some x"
  then have "(k, x) \<in> set al" by (rule map_of_SomeD)
  then have "k \<in> set (map fst al)" by force
  then show ?thesis by (simp add: update_keys)
qed

lemma devDependencies_merged:
  fixes dev :: "(string \<times> json) list"
  defines "dev' \<equiv> fold (\<lambda>(k, v). AList.update k v) devDependencies_added dev"
  shows "\<forall>k. k \<notin> {''svelte-check'', ''svelte-preprocess'', ''@rollup/plugin-typescript'',
            ''typescript'', ''tslib'', ''@tsconfig/svelte''} \<longrightarrow> map_of dev' k = map_of dev k"
    and "map_of dev' ''svelte-check'' = Some (JStr ''^3.0.0'')"
    and "map_of dev' ''svelte-preprocess'' = Some (JStr ''^5.0.0'')"
    and "map_of dev' ''@rollup/plugin-typescript'' = Some (JStr ''^11.0.0'')"
    and "map_of dev' ''typescript'' = Some (JStr ''^4.9.0'')"
    and "map_of dev' ''tslib'' = Some (JStr ''^2.5.0'')"
    and "map_of dev' ''@tsconfig/svelte'' = Some (JStr ''^3.0.0'')"
  by (simp_all add: dev'_def devDependencies_added_def update_conv')

lemma scripts_merged:
  fixes scr :: "(string \<times> json) list"
  defines "scr' \<equiv> fold (\<lambda>(k, v). AList.update k v) scripts_added scr"
  shows "\<forall>k. k \<noteq> ''check'' \<longrightarrow> map_of scr' k = map_of scr k"
    and "map_of scr' ''check'' = Some (JStr ''svelte-check'')"
  by (simp_all add: scr'_def scripts_added_def update_conv')

section \<open>Properties of a run\<close>

lemma setupTypeScript_steps:
  "setupTypeScript rt cmd =
     exec (atomic (step_packageJSON rt cmd) # atomic (step_rename cmd) #
           atomic (step_appFile cmd) # atomic (step_rollupConfig cmd) #
           atomic (step_tsconfig cmd) # atomic (step_svelteConfig cmd) #
           atomic (step_dts cmd) # (cleanup_steps cmd @ finish_steps cmd))"
  by (simp add: setupTypeScript_def conversion_steps_def)

lemma setupTypeScript_conversion:
  "setupTypeScript rt cmd st =
     (case exec (conversion_steps rt cmd) st of
        (Some e, s) \<Rightarrow> (Some e, s)
      | (None, s) \<Rightarrow> exec (cleanup_steps cmd @ finish_steps cmd) s)"
  by (simp add: setupTypeScript_def exec_append)

lemma exec_keeps:
  "list_all (preserves P) steps \<Longrightarrow> exec steps s = (r, s') \<Longrightarrow> P s \<Longrightarrow> P s'"
  using preservesD[OF preserves_exec, of P steps s] by simp

lemma run_result:
  assumes "fst (setupTypeScript rt cmd st) = None"
  shows "setupTypeScript rt cmd st = (None, snd (setupTypeScript rt cmd st))"
  using assms by (cases "setupTypeScript rt cmd st") simp

lemma run_success:
  assumes "fst (setupTypeScript rt cmd st) = None"
  obtains s1 s2 s7 where
    "atomic (step_packageJSON rt cmd) st = (None, s1)"
    "atomic (step_rename cmd) s1 = (None, s2)"
    "exec [atomic (step_rename cmd), atomic (step_appFile cmd),
           atomic (step_rollupConfig cmd), atomic (step_tsconfig cmd),
           atomic (step_svelteConfig cmd), atomic (step_dts cmd)] s1 = (None, s7)"
    "exec [atomic (step_appFile cmd), atomic (step_rollupConfig cmd),
           atomic (step_tsconfig cmd), atomic (step_svelteConfig cmd),
           atomic (step_dts cmd)] s2 = (None, s7)"
    "exec (conversion_steps rt cmd) st = (None, s7)"
    "exec (cleanup_steps cmd @ finish_steps cmd) s7 = (None, snd (setupTypeScript rt cmd st))"
proof -
  define r where "r = snd (setupTypeScript rt cmd st)"
  have "setupTypeScript rt cmd st = (None, r)"
    unfolding r_def using assms by (rule run_result)
  then obtain s7 where c: "exec (conversion_steps rt cmd) st = (None, s7)"
    and f: "exec (cleanup_steps cmd @ finish_steps cmd) s7 = (None, r)"
    unfolding setupTypeScript_def
      exec_append_None[of "conversion_steps rt cmd" "cleanup_steps cmd @ finish_steps cmd"]
    by blast
  from c obtain s1 where 1: "atomic (step_packageJSON rt cmd) st = (None, s1)"
    and t1: "exec [atomic (step_rename cmd), atomic (step_appFile cmd),
           atomic (step_rollupConfig cmd), atomic (step_tsconfig cmd),
           atomic (step_svelteConfig cmd), atomic (step_dts cmd)] s1 = (None, s7)"
    unfolding conversion_steps_def
      exec_Cons_None[of "atomic (step_packageJSON rt cmd)"] by blast
  from t1 obtain s2 where 2: "atomic (step_rename cmd) s1 = (None, s2)"
    and t2: "exec [atomic (step_appFile cmd), atomic (step_rollupConfig cmd),
           atomic (step_tsconfig cmd), atomic (step_svelteConfig cmd),
           atomic (step_dts cmd)] s2 = (None, s7)"
    unfolding exec_Cons_None[of "atomic (step_rename cmd)"] by blast
  from that[OF 1 2 t1 t2 c] f show thesis unfolding r_def by simp
qed

lemma keepD: "preserves P f \<Longrightarrow> f s = (r, s') \<Longrightarrow> P s \<Longrightarrow> P s'"
  using preservesD[of P f s] by simp

subsection \<open>The entry point\<close>





subsection \<open>Steps that write a file\<close>

lemma step_writes:
  "step_packageJSON rt cmd fs = Inr fs' \<Longrightarrow>
     \<exists>body. writeFileSync fs (packageJSONPath cmd) body = Inr fs'"
  "step_appFile cmd fs = Inr fs' \<Longrightarrow> \<exists>body. writeFileSync fs (appSveltePath cmd) body = Inr fs'"
  "step_rollupConfig cmd fs = Inr fs' \<Longrightarrow>
     \<exists>body. writeFileSync fs (rollupConfigPath cmd) body = Inr fs'"
  by (auto simp: step_packageJSON_def step_appFile_def step_rollupConfig_def and_then_Inr
      split: option.splits)

lemma write_steps_preserve:
  assumes "\<And>fs p body fs'. writeFileSync fs p body = Inr fs' \<Longrightarrow> Q fs \<Longrightarrow> Q fs'"
  shows "preserves (\<lambda>st. Q (files st)) (atomic (step_packageJSON rt cmd))"
    and "preserves (\<lambda>st. Q (files st)) (atomic (step_appFile cmd))"
    and "preserves (\<lambda>st. Q (files st)) (atomic (step_rollupConfig cmd))"
    and "preserves (\<lambda>st. Q (files st)) (atomic (step_tsconfig cmd))"
    and "preserves (\<lambda>st. Q (files st)) (atomic (step_svelteConfig cmd))"
    and "preserves (\<lambda>st. Q (files st)) (atomic (step_dts cmd))"
    and "preserves (\<lambda>st. Q (files st)) (atomic (step_extensions cmd))"
proof -
  show "preserves (\<lambda>st. Q (files st)) (atomic (step_packageJSON rt cmd))"
    by (rule preserves_atomic) (use assms step_writes(1) in blast)
  show "preserves (\<lambda>st. Q (files st)) (atomic (step_appFile cmd))"
    by (rule preserves_atomic) (use assms step_writes(2) in blast)
  show "preserves (\<lambda>st. Q (files st)) (atomic (step_rollupConfig cmd))"
    by (rule preserves_atomic) (use assms step_writes(3) in blast)
  show "preserves (\<lambda>st. Q (files st)) (atomic (step_tsconfig cmd))"
    by (rule preserves_atomic) (use assms in \<open>unfold step_tsconfig_def, blast\<close>)
  show "preserves (\<lambda>st. Q (files st)) (atomic (step_svelteConfig cmd))"
    by (rule preserves_atomic) (use assms in \<open>unfold step_svelteConfig_def, blast\<close>)
  show "preserves (\<lambda>st. Q (files st)) (atomic (step_dts cmd))"
    by (rule preserves_atomic) (use assms in \<open>unfold step_dts_def, blast\<close>)
  show "preserves (\<lambda>st. Q (files st)) (atomic (step_extensions cmd))"
    by (rule preserves_atomic) (use assms in \<open>unfold step_extensions_def, blast\<close>)
qed

lemma preserves_rename_exists:
  "\<not> prefix (beforeMainJSPath cmd) q \<Longrightarrow>
   preserves (\<lambda>st. lookup (files st) q \<noteq> None) (atomic (step_rename cmd))"
  by (rule preserves_atomic) (auto simp: step_rename_def dest: renameSync_exists)

lemma preserves_mkdir_exists:
  "preserves (\<lambda>st. lookup (files st) q \<noteq> None) (step_mkdir_vscode cmd)"
  by (rule preserves_step_mkdir_vscode) (simp add: mkdirSync_recursive_keeps)

lemma preserves_log_exists:
  "preserves (\<lambda>st. lookup (files st) q \<noteq> None) (console_log msg)"
  "preserves (\<lambda>st. lookup (files st) q \<noteq> None) (step_advise cmd)"
  by (simp_all add: preserves_def console_log_def step_advise_def)

text \<open>With an argument that counts as true the run has no deleting step.\<close>

lemma run_keeps_existing:
  assumes "truthy (argv2 cmd)" and "\<not> prefix (beforeMainJSPath cmd) q"
    and "lookup (files st) q \<noteq> None"
  shows "lookup (files (snd (setupTypeScript rt cmd st))) q \<noteq> None"
proof -
  let ?Q = "\<lambda>fs. lookup fs q \<noteq> None"
  have w: "\<And>fs p body fs'. writeFileSync fs p body = Inr fs' \<Longrightarrow> ?Q fs \<Longrightarrow> ?Q fs'"
    by (rule writeFileSync_exists)
  have c: "cleanup_steps cmd = []"
    using assms(1) by (simp add: cleanup_steps_def)
  note ps = write_steps_preserve[of ?Q, OF w] preserves_rename_exists[OF assms(2)]
    preserves_mkdir_exists preserves_log_exists
  have "list_all (preserves (\<lambda>st. ?Q (files st)))
      (conversion_steps rt cmd @ cleanup_steps cmd @ finish_steps cmd)"
    unfolding conversion_steps_def finish_steps_def c
    by (simp only: list.pred_inject append_Cons append_Nil ps simp_thms)
  from preservesD[OF preserves_exec[OF this] assms(3)] show ?thesis
    by (simp add: setupTypeScript_def)
qed

lemma run_keeps_unchanged:
  assumes "truthy (argv2 cmd)" and "q \<notin> set (rewritten cmd)"
    and "\<not> prefix (beforeMainJSPath cmd) q" and "\<not> prefix (afterMainTSPath cmd) q"
    and "lookup (files st) q \<noteq> None \<or> \<not> prefix q (vscodePath cmd)"
  shows "lookup (files (snd (setupTypeScript rt cmd st))) q = lookup (files st) q"
proof -
  let ?P = "\<lambda>s. lookup (files s) q = lookup (files st) q"
  have "list_all (preserves ?P)
      (conversion_steps rt cmd @ cleanup_steps cmd @ finish_steps cmd)"
    using assms
    by (simp add: conversion_steps_def cleanup_steps_def finish_steps_def rewritten_def
        keep_packageJSON keep_rename keep_appFile keep_rollupConfig keep_tsconfig
        keep_svelteConfig keep_dts keep_mkdir_vscode keep_extensions keep_log)
  from preservesD[OF preserves_exec[OF this], of st] show ?thesis
    by (simp add: setupTypeScript_def)
qed

subsection \<open>The branch that deletes the script\<close>

lemma entries_delete:
  assumes "p \<noteq> []"
  shows "set (entries (AList.delete p fs) d) =
         set (entries fs d) - (if butlast p = d then {last p} else {})"
proof -
  have eq: "d @ [n] = p \<longleftrightarrow> butlast p = d \<and> last p = n" for n
  proof
    assume "d @ [n] = p"
    then have "butlast (d @ [n]) = butlast p" "last (d @ [n]) = last p" by simp_all
    then show "butlast p = d \<and> last p = n" by simp
  next
    assume "butlast p = d \<and> last p = n"
    with append_butlast_last_id[OF assms] show "d @ [n] = p" by simp
  qed
  have "n \<in> set (entries (AList.delete p fs) d) \<longleftrightarrow>
        n \<in> set (entries fs d) - (if butlast p = d then {last p} else {})" for n
  proof -
    have "n \<in> set (entries (AList.delete p fs) d) \<longleftrightarrow>
        d @ [n] \<noteq> p \<and> n \<in> set (entries fs d)"
      unfolding entries_iff lookup_delete[OF assms] by simp
    also have "\<dots> \<longleftrightarrow> \<not> (butlast p = d \<and> last p = n) \<and> n \<in> set (entries fs d)"
      by (simp only: eq)
    also have "\<dots> \<longleftrightarrow> n \<in> set (entries fs d) - (if butlast p = d then {last p} else {})"
      by (cases "butlast p = d") auto
    finally show ?thesis .
  qed
  then show ?thesis by blast
qed

lemma butlast_neq: "xs \<noteq> [] \<Longrightarrow> xs \<noteq> butlast xs"
proof
  assume "xs \<noteq> []" and "xs = butlast xs"
  then have "length xs = length (butlast xs)" by simp
  with \<open>xs \<noteq> []\<close> show False by (cases xs rule: rev_cases) simp_all
qed

lemma readdirSync_dir: "lookup fs d = Some Dir \<Longrightarrow> readdirSync fs d = Inr (entries fs d)"
  by (simp add: readdirSync_def)

lemma rmdirSync_empty:
  "lookup fs d = Some Dir \<Longrightarrow> d \<noteq> [] \<Longrightarrow> entries fs d = [] \<Longrightarrow>
   rmdirSync fs d = Inr (AList.delete d fs)"
  by (simp add: rmdirSync_def)

lemma exec3:
  assumes "fa (files s) = Inr a" and "fb a = Inr b" and "fc b = Inr c"
  shows "exec [atomic fa, atomic fb, atomic fc] s = (None, s\<lparr>files := c\<rparr>)"
  using assms by (simp add: atomic_def)

lemma cleanup_script_only:
  assumes no_arg: "\<not> truthy (argv2 cmd)"
    and scr: "lookup (files mid) (filename cmd) = Some (File body)"
    and dir: "lookup (files mid) (dirname cmd) = Some Dir" "dirname cmd \<noteq> []"
    and only: "set (entries (files mid) (dirname cmd)) = {last (filename cmd)}"
  shows "\<exists>st1. exec (cleanup_steps cmd) mid = (None, st1) \<and>
    (\<forall>q. lookup (files st1) q =
       (if q = filename cmd \<or> q = dirname cmd then None else lookup (files mid) q))"
proof -
  let ?s = "filename cmd" and ?d = "dirname cmd"
  from scr have s: "?s \<noteq> []" by auto
  have bl: "butlast ?s = ?d" by (simp add: filename_def dirname_def)
  from butlast_neq[OF s] bl have sd: "?s \<noteq> ?d" by simp
  define fs1 where "fs1 = AList.delete ?s (files mid)"
  have 1: "step_unlink_script cmd (files mid) = Inr fs1"
    using scr by (simp add: step_unlink_script_def unlinkSync_file fs1_def)
  have d1: "lookup fs1 ?d = Some Dir"
    using dir(1) s sd by (simp add: fs1_def lookup_delete)
  have "set (entries fs1 ?d) = {}"
    using only s bl by (simp add: fs1_def entries_delete)
  then have e1: "entries fs1 ?d = []" by simp
  have 2: "step_DS_store cmd fs1 = Inr fs1"
    using d1 e1 by (simp add: step_DS_store_def readdirSync_dir and_then_def)
  have 3: "step_rmdir cmd fs1 = Inr (AList.delete ?d fs1)"
    using d1 e1 dir(2) by (simp add: step_rmdir_def readdirSync_dir and_then_def rmdirSync_empty)
  from exec3[where fa = "step_unlink_script cmd" and fb = "step_DS_store cmd"
      and fc = "step_rmdir cmd", OF 1 2 3] no_arg
  have "exec (cleanup_steps cmd) mid = (None, mid\<lparr>files := AList.delete ?d fs1\<rparr>)"
    by (simp add: cleanup_steps_def)
  moreover have "lookup (AList.delete ?d fs1) q =
      (if q = ?s \<or> q = ?d then None else lookup (files mid) q)" for q
    using s dir(2) by (simp add: fs1_def lookup_delete)
  ultimately show ?thesis by simp
qed

lemma cleanup_script_and_metadata:
  assumes no_arg: "\<not> truthy (argv2 cmd)"
    and scr: "lookup (files mid) (filename cmd) = Some (File body)"
    and dir: "lookup (files mid) (dirname cmd) = Some Dir" "dirname cmd \<noteq> []"
    and meta: "lookup (files mid) (DS_storePath cmd) = Some (File body')"
    and two: "set (entries (files mid) (dirname cmd)) = {last (filename cmd), ''.DS_store''}"
      "last (filename cmd) \<noteq> ''.DS_store''"
  shows "\<exists>st1. exec (cleanup_steps cmd) mid = (None, st1) \<and>
    (\<forall>q. lookup (files st1) q =
       (if q = filename cmd \<or> q = DS_storePath cmd \<or> q = dirname cmd then None
        else lookup (files mid) q))"
proof -
  let ?s = "filename cmd" and ?d = "dirname cmd" and ?m = "DS_storePath cmd"
  from scr have s: "?s \<noteq> []" by auto
  have bl: "butlast ?s = ?d" by (simp add: filename_def dirname_def)
  from butlast_neq[OF s] bl have sd: "?s \<noteq> ?d" by simp
  have m: "?m \<noteq> []" "butlast ?m = ?d" "last ?m = ''.DS_store''" "?m \<noteq> ?d"
    by (simp_all add: DS_storePath_def)
  from two(2) m(3) have sm: "?s \<noteq> ?m" by auto
  define fs1 where "fs1 = AList.delete ?s (files mid)"
  define fs2 where "fs2 = AList.delete ?m fs1"
  have 1: "step_unlink_script cmd (files mid) = Inr fs1"
    using scr by (simp add: step_unlink_script_def unlinkSync_file fs1_def)
  have d1: "lookup fs1 ?d = Some Dir"
    using dir(1) s sd by (simp add: fs1_def lookup_delete)
  have "set (entries fs1 ?d) = {''.DS_store''}"
    using two s bl by (auto simp: fs1_def entries_delete)
  then have e1: "length (entries fs1 ?d) = 1 \<and> entries fs1 ?d ! 0 = ''.DS_store''"
    by (simp only: entries_single_iff)
  have m1: "lookup fs1 ?m = Some (File body')"
    using meta s sm by (simp add: fs1_def lookup_delete)
  have 2: "step_DS_store cmd fs1 = Inr fs2"
    using d1 e1 m1
    by (simp add: step_DS_store_def readdirSync_dir and_then_def unlinkSync_file fs2_def)
  have d2: "lookup fs2 ?d = Some Dir"
    using d1 m by (simp add: fs2_def lookup_delete)
  have "set (entries fs2 ?d) = {}"
    using \<open>set (entries fs1 ?d) = {''.DS_store''}\<close> m by (simp add: fs2_def entries_delete)
  then have e2: "entries fs2 ?d = []" by simp
  have 3: "step_rmdir cmd fs2 = Inr (AList.delete ?d fs2)"
    using d2 e2 dir(2) by (simp add: step_rmdir_def readdirSync_dir and_then_def rmdirSync_empty)
  from exec3[where fa = "step_unlink_script cmd" and fb = "step_DS_store cmd"
      and fc = "step_rmdir cmd", OF 1 2 3] no_arg
  have "exec (cleanup_steps cmd) mid = (None, mid\<lparr>files := AList.delete ?d fs2\<rparr>)"
    by (simp add: cleanup_steps_def)
  moreover have "lookup (AList.delete ?d fs2) q =
      (if q = ?s \<or> q = ?m \<or> q = ?d then None else lookup (files mid) q)" for q
    using s m(1) dir(2) by (simp add: fs1_def fs2_def lookup_delete)
  ultimately show ?thesis by simp
qed

lemma cleanup_directory_in_use:
  assumes no_arg: "\<not> truthy (argv2 cmd)"
    and scr: "lookup (files mid) (filename cmd) = Some (File body)"
    and dir: "lookup (files mid) (dirname cmd) = Some Dir"
    and other: "n \<in> set (entries (files mid) (dirname cmd))"
      "n \<noteq> last (filename cmd)" "n \<noteq> ''.DS_store''"
  shows "\<exists>st1. exec (cleanup_steps cmd) mid = (None, st1) \<and>
    (\<forall>q. lookup (files st1) q = (if q = filename cmd then None else lookup (files mid) q))"
proof -
  let ?s = "filename cmd" and ?d = "dirname cmd"
  from scr have s: "?s \<noteq> []" by auto
  have bl: "butlast ?s = ?d" by (simp add: filename_def dirname_def)
  from butlast_neq[OF s] bl have sd: "?s \<noteq> ?d" by simp
  define fs1 where "fs1 = AList.delete ?s (files mid)"
  have 1: "step_unlink_script cmd (files mid) = Inr fs1"
    using scr by (simp add: step_unlink_script_def unlinkSync_file fs1_def)
  have d1: "lookup fs1 ?d = Some Dir"
    using dir s sd by (simp add: fs1_def lookup_delete)
  have n1: "n \<in> set (entries fs1 ?d)"
    using other s bl by (simp add: fs1_def entries_delete)
  then have "set (entries fs1 ?d) \<noteq> {''.DS_store''}" using other(3) by auto
  then have e1: "\<not> (length (entries fs1 ?d) = 1 \<and> entries fs1 ?d ! 0 = ''.DS_store'')"
    by (simp only: entries_single_iff not_False_eq_True)
  from n1 have e2: "length (entries fs1 ?d) \<noteq> 0" by auto
  have 2: "step_DS_store cmd fs1 = Inr fs1"
    using d1 e1 by (auto simp: step_DS_store_def readdirSync_dir and_then_def)
  have 3: "step_rmdir cmd fs1 = Inr fs1"
    using d1 e2 by (simp add: step_rmdir_def readdirSync_dir and_then_def)
  from exec3[where fa = "step_unlink_script cmd" and fb = "step_DS_store cmd"
      and fc = "step_rmdir cmd", OF 1 2 3] no_arg
  have "exec (cleanup_steps cmd) mid = (None, mid\<lparr>files := fs1\<rparr>)"
    by (simp add: cleanup_steps_def)
  moreover have "lookup fs1 q = (if q = ?s then None else lookup (files mid) q)" for q
    using s by (simp add: fs1_def lookup_delete)
  ultimately show ?thesis by simp
qed

lemma cleanup_failure_is_fatal:
  assumes "exec (conversion_steps rt cmd) st = (None, mid)"
    and "exec (cleanup_steps cmd) mid = (Some e, st1)"
  shows "setupTypeScript rt cmd st = (Some e, st1)"
  using assms by (simp add: setupTypeScript_def exec_append)

lemma cleanup_then_finish:
  assumes "exec (conversion_steps rt cmd) st = (None, mid)"
    and "exec (cleanup_steps cmd) mid = (None, st1)"
  shows "setupTypeScript rt cmd st = exec (finish_steps cmd) st1"
  using assms by (simp add: setupTypeScript_def exec_append)

text \<open>
  The conversion steps leave the directory of the script as it is, when the script runs
  in place from a directory other than \<^verbatim>\<open>src\<close>.
\<close>

lemma conversion_keeps_script_directory:
  assumes no_arg: "\<not> truthy (argv2 cmd)"
    and d: "dirname cmd \<noteq> []" "last (dirname cmd) \<noteq> ''src''"
    and dir: "lookup (files st) (dirname cmd) = Some Dir"
    and conv: "exec (conversion_steps rt cmd) st = (r, mid)"
  shows "lookup (files mid) (dirname cmd) = Some Dir"
    and "lookup (files mid) (dirname cmd @ [n]) = lookup (files st) (dirname cmd @ [n])"
    and "set (entries (files mid) (dirname cmd)) = set (entries (files st) (dirname cmd))"
proof -
  from no_arg have root: "projectRoot cmd = butlast (dirname cmd)"
    by (cases "argv2 cmd") (simp_all add: projectRoot_def)
  with d(1) have dn: "dirname cmd = projectRoot cmd @ [last (dirname cmd)]" by simp
  let ?Q = "\<lambda>fs. lookup fs (dirname cmd) = Some Dir"
  have w: "\<And>fs p body fs'. writeFileSync fs p body = Inr fs' \<Longrightarrow> ?Q fs \<Longrightarrow> ?Q fs'"
    by (rule writeFileSync_dir)
  have "\<not> prefix (beforeMainJSPath cmd) (dirname cmd)"
    "\<not> prefix (afterMainTSPath cmd) (dirname cmd)"
    by (subst dn, simp add: target_paths)+
  then have "list_all (preserves (\<lambda>s. ?Q (files s))) (conversion_steps rt cmd)"
    by (simp add: conversion_steps_def write_steps_preserve[of ?Q, OF w] keep_rename)
  from exec_keeps[OF this conv dir] show "lookup (files mid) (dirname cmd) = Some Dir" .
  have keep: "lookup (files mid) (dirname cmd @ [m]) = lookup (files st) (dirname cmd @ [m])"
    for m
  proof -
    let ?q = "dirname cmd @ [m]"
    let ?P = "\<lambda>s. lookup (files s) ?q = lookup (files st) ?q"
    have q: "?q = projectRoot cmd @ [last (dirname cmd), m]" by (subst dn) simp
    have "list_all (preserves ?P) (conversion_steps rt cmd)"
      unfolding q using d(2)
      by (simp add: conversion_steps_def keep_packageJSON keep_rename keep_appFile
          keep_rollupConfig keep_tsconfig keep_svelteConfig keep_dts target_paths)
    from exec_keeps[OF this conv] show ?thesis by simp
  qed
  then show "lookup (files mid) (dirname cmd @ [n]) = lookup (files st) (dirname cmd @ [n])" .
  from keep show "set (entries (files mid) (dirname cmd)) =
      set (entries (files st) (dirname cmd))"
    by (auto simp: entries_iff)
qed

section \<open>The claims about the two edited files\<close>

text \<open>
  C2. A bundler configuration that contains the four anchors: after one run the two
  import lines stand right after the first anchor, the entry point is the typed file, the
  preprocessor line stands right before the key of the compiler options and the call of
  the typescript plugin right after the call of the commonjs plugin. Each of the four
  fragments occurs exactly once more than before, and the text has grown by the three
  inserted fragments and by nothing else.
\<close>

theorem rollupConfig_converted:
  assumes "str_includes rollupConfig css_anchor"
    and "str_includes rollupConfig entry_js"
    and "str_includes rollupConfig options_anchor"
    and "str_includes rollupConfig commonjs_anchor"
  shows "str_includes (convert_rollupConfig rollupConfig) (css_anchor @ ts_imports) \<and>
    str_includes (convert_rollupConfig rollupConfig) entry_ts \<and>
    str_includes (convert_rollupConfig rollupConfig) (preprocess_line @ options_anchor) \<and>
    str_includes (convert_rollupConfig rollupConfig) (commonjs_anchor @ typescript_call) \<and>
    occurrences (convert_rollupConfig rollupConfig) ts_imports =
      occurrences rollupConfig ts_imports + 1 \<and>
    occurrences (convert_rollupConfig rollupConfig) entry_ts =
      occurrences rollupConfig entry_ts + 1 \<and>
    occurrences (convert_rollupConfig rollupConfig) preprocess_line =
      occurrences rollupConfig preprocess_line + 1 \<and>
    occurrences (convert_rollupConfig rollupConfig) typescript_call =
      occurrences rollupConfig typescript_call + 1 \<and>
    length (convert_rollupConfig rollupConfig) =
      length rollupConfig + length ts_imports + length preprocess_line +
      length typescript_call"
proof -
  note ins = convert_rollupConfig_insertions[OF assms(1) assms(3) assms(4)]
  note ent = convert_rollupConfig_entry[OF assms(1) assms(2)]
  have "0 < occurrences (convert_rollupConfig rollupConfig) entry_ts"
    using ent by simp
  then have "str_includes (convert_rollupConfig rollupConfig) entry_ts"
    by (simp only: occurrences_pos_iff)
  with ins ent show ?thesis
    by (simp only: css_replacement_eq options_replacement_eq commonjs_replacement_eq
        simp_thms)
qed

theorem rollupConfig_converted_witness:
  "str_includes demo_rollupConfig css_anchor \<and>
   str_includes demo_rollupConfig entry_js \<and>
   str_includes demo_rollupConfig options_anchor \<and>
   str_includes demo_rollupConfig commonjs_anchor \<and>
   str_includes (convert_rollupConfig demo_rollupConfig) (css_anchor @ ts_imports) \<and>
   occurrences (convert_rollupConfig demo_rollupConfig) typescript_call = 1 \<and>
   length (convert_rollupConfig demo_rollupConfig) = length demo_rollupConfig + 241"
proof -
  have h: "str_includes demo_rollupConfig css_anchor"
    "str_includes demo_rollupConfig entry_js"
    "str_includes demo_rollupConfig options_anchor"
    "str_includes demo_rollupConfig commonjs_anchor"
    by (simp_all add: demo_rollupConfig_def css_anchor_def entry_js_def options_anchor_def
        commonjs_anchor_def)
  have o: "occurrences demo_rollupConfig typescript_call = 0"
    by (simp add: demo_rollupConfig_def typescript_call_def)
  have l: "length ts_imports + length preprocess_line + length typescript_call = 241"
    by (simp add: ts_imports_def preprocess_line_def typescript_call_def)
  from rollupConfig_converted[OF h] h o l show ?thesis by simp
qed

text \<open>
  C3. The conversion of the bundler configuration is not idempotent. In a configuration
  that has been converted the three anchors of the insertions still match, and a second
  run inserts the import lines, the preprocessor line and the call of the plugin a second
  time: it changes the text, and each fragment then occurs twice more than in the
  configuration before the first run.
\<close>

theorem rollupConfig_second_run:
  assumes "str_includes rollupConfig css_anchor"
    and "str_includes rollupConfig options_anchor"
    and "str_includes rollupConfig commonjs_anchor"
  shows "str_includes (convert_rollupConfig rollupConfig) css_anchor \<and>
    str_includes (convert_rollupConfig rollupConfig) options_anchor \<and>
    str_includes (convert_rollupConfig rollupConfig) commonjs_anchor \<and>
    convert_rollupConfig (convert_rollupConfig rollupConfig) \<noteq>
      convert_rollupConfig rollupConfig \<and>
    occurrences (convert_rollupConfig (convert_rollupConfig rollupConfig)) ts_imports =
      occurrences rollupConfig ts_imports + 2 \<and>
    occurrences (convert_rollupConfig (convert_rollupConfig rollupConfig)) preprocess_line =
      occurrences rollupConfig preprocess_line + 2 \<and>
    occurrences (convert_rollupConfig (convert_rollupConfig rollupConfig)) typescript_call =
      occurrences rollupConfig typescript_call + 2 \<and>
    length (convert_rollupConfig (convert_rollupConfig rollupConfig)) =
      length (convert_rollupConfig rollupConfig) + length ts_imports +
      length preprocess_line + length typescript_call"
proof -
  let ?c = "convert_rollupConfig rollupConfig"
  note first = convert_rollupConfig_insertions[OF assms]
  have b1: "str_includes ?c css_anchor"
    using first(1) unfolding css_replacement_eq by (rule includes_append_left)
  have b3: "str_includes ?c options_anchor"
    using first(2) unfolding options_replacement_eq by (rule includes_append_right)
  have b4: "str_includes ?c commonjs_anchor"
    using first(3) unfolding commonjs_replacement_eq by (rule includes_append_left)
  note second = convert_rollupConfig_insertions[OF b1 b3 b4]
  have "length (convert_rollupConfig ?c) \<noteq> length ?c"
    using second(7) by (simp add: ts_imports_def)
  then have "convert_rollupConfig ?c \<noteq> ?c" by auto
  with b1 b3 b4 first(4-6) second(4-7) show ?thesis by simp
qed

theorem rollupConfig_second_run_witness:
  "str_includes demo_rollupConfig css_anchor \<and>
   str_includes demo_rollupConfig options_anchor \<and>
   str_includes demo_rollupConfig commonjs_anchor \<and>
   convert_rollupConfig (convert_rollupConfig demo_rollupConfig) \<noteq>
     convert_rollupConfig demo_rollupConfig \<and>
   occurrences (convert_rollupConfig (convert_rollupConfig demo_rollupConfig)) ts_imports = 2"
proof -
  have h: "str_includes demo_rollupConfig css_anchor"
    "str_includes demo_rollupConfig options_anchor"
    "str_includes demo_rollupConfig commonjs_anchor"
    by (simp_all add: demo_rollupConfig_def css_anchor_def options_anchor_def
        commonjs_anchor_def)
  have o: "occurrences demo_rollupConfig ts_imports = 0"
    by (simp add: demo_rollupConfig_def ts_imports_def)
  from rollupConfig_second_run[OF h] h o show ?thesis by simp
qed

text \<open>
  C4, as amended. A root component that contains the script tag and the declaration of
  the property: the conversion replaces the first script tag by the typed tag and the
  first declaration by the typed declaration, and nothing else of the text changes. That
  an occurrence is the first one is stated as: the anchor does not occur in the text that
  ends one character before the end of that occurrence. Each of the two typed fragments
  then occurs exactly once more than before, hence exactly once when the component had
  none of them.
\<close>

theorem appFile_converted:
  assumes "str_includes appFile script_tag" and "str_includes appFile name_decl"
  shows "occurrences (convert_appFile appFile) script_tag_ts =
      occurrences appFile script_tag_ts + 1 \<and>
    occurrences (convert_appFile appFile) name_decl_ts =
      occurrences appFile name_decl_ts + 1 \<and>
    (\<exists>a b c.
       appFile = a @ script_tag @ b @ name_decl @ c \<and>
       convert_appFile appFile = a @ script_tag_ts @ b @ name_decl_ts @ c \<and>
       \<not> str_includes (butlast (a @ script_tag)) script_tag \<and>
       \<not> str_includes (butlast (a @ script_tag @ b @ name_decl)) name_decl \<or>
       appFile = a @ name_decl @ b @ script_tag @ c \<and>
       convert_appFile appFile = a @ name_decl_ts @ b @ script_tag_ts @ c \<and>
       \<not> str_includes (butlast (a @ name_decl)) name_decl \<and>
       \<not> str_includes (butlast (a @ name_decl @ b @ script_tag)) script_tag)"
  using convert_appFile_counts[OF assms] convert_appFile_splits[OF assms] by simp

theorem appFile_converted_witness:
  "str_includes demo_appFile script_tag \<and> str_includes demo_appFile name_decl \<and>
   occurrences (convert_appFile demo_appFile) script_tag_ts = 1 \<and>
   occurrences (convert_appFile demo_appFile) name_decl_ts = 1"
proof -
  have h: "str_includes demo_appFile script_tag" "str_includes demo_appFile name_decl"
    by (simp_all add: demo_appFile_def script_tag_def name_decl_def)
  have o: "occurrences demo_appFile script_tag_ts = 0"
    "occurrences demo_appFile name_decl_ts = 0"
    by (simp_all add: demo_appFile_def script_tag_ts_def name_decl_ts_def)
  from appFile_converted[OF h] h o show ?thesis by simp
qed

text \<open>
  The claim as it was stated fails on a component that shows the typed tag already, here
  in a comment: it has the two anchors, and after the conversion the typed tag occurs
  twice.
\<close>

theorem appFile_typed_tag_twice:
  "str_includes demo_appFile_commented script_tag \<and>
   str_includes demo_appFile_commented name_decl \<and>
   occurrences (convert_appFile demo_appFile_commented) script_tag_ts = 2"
  by (simp add: demo_appFile_commented_def convert_appFile_def script_tag_def
      script_tag_ts_def name_decl_def name_decl_ts_def)

section \<open>The claims about a run\<close>

text \<open>
  C10. A manifest that parses but in which \<^verbatim>\<open>devDependencies\<close> or \<^verbatim>\<open>scripts\<close> is
  undefined: the run ends with a \<^verbatim>\<open>TypeError\<close> in the merge, before anything is written,
  and in the state in which it began.
\<close>

theorem manifest_without_field:
  assumes "lookup (files st) (packageJSONPath cmd) = Some (File manifest)"
    and "parse rt manifest = Some packageJSON"
    and "get_prop packageJSON ''devDependencies'' = Inr None \<or>
         get_prop packageJSON ''scripts'' = Inr None"
  shows "setupTypeScript rt cmd st = (Some TypeError, st)"
proof -
  from assms(3) have "merge_packageJSON packageJSON = Inl TypeError"
    by (rule merge_packageJSON_undefined)
  with assms(1,2) have "step_packageJSON rt cmd (files st) = Inl TypeError"
    by (simp add: step_packageJSON_def readFileSync_def and_then_def)
  then have "atomic (step_packageJSON rt cmd) st = (Some TypeError, st)"
    by (rule atomic_Inl)
  then show ?thesis by (simp add: setupTypeScript_steps)
qed

theorem manifest_without_field_witness:
  "lookup (files demo_bare_state) (packageJSONPath demo_in_place) =
     Some (File demo_bare_manifest) \<and>
   parse demo_bare_runtime demo_bare_manifest = Some (JObj [(''devDependencies'', JObj [])]) \<and>
   get_prop (JObj [(''devDependencies'', JObj [])]) ''scripts'' = Inr None \<and>
   setupTypeScript demo_bare_runtime demo_in_place demo_bare_state =
     (Some TypeError, demo_bare_state)"
proof -
  have 1: "lookup (files demo_bare_state) (packageJSONPath demo_in_place) =
      Some (File demo_bare_manifest)"
    by (simp add: demo_bare_state_def demo_in_place_def packageJSONPath_def projectRoot_def
        dirname_def lookup_def update_conv')
  have 2: "parse demo_bare_runtime demo_bare_manifest =
      Some (JObj [(''devDependencies'', JObj [])])"
    by (simp add: demo_bare_runtime_def)
  have 3: "get_prop (JObj [(''devDependencies'', JObj [])]) ''devDependencies'' = Inr None \<or>
      get_prop (JObj [(''devDependencies'', JObj [])]) ''scripts'' = Inr None"
    by simp
  from manifest_without_field[OF 1 2 3] 1 2 show ?thesis by simp
qed

text \<open>
  C1. A manifest that is an object with the maps \<^verbatim>\<open>devDependencies\<close> and \<^verbatim>\<open>scripts\<close>:
  after a run that succeeds the manifest file holds the text of the merged object. Its
  keys are those of the manifest in their order, every key other than the two maps has
  its value of before, every key of the two maps other than the fixed ones has its value
  of before, and the six fixed dependencies and the script \<^verbatim>\<open>check\<close> have the values of
  the script whatever they were. The script that runs in place must not be the manifest
  itself, which the run would then delete.
\<close>

theorem manifest_merged:
  assumes "lookup (files st) (packageJSONPath cmd) = Some (File manifest)"
    and "parse rt manifest = Some (JObj pkg)"
    and "map_of pkg ''devDependencies'' = Some (JObj dev)"
    and "map_of pkg ''scripts'' = Some (JObj scr)"
    and "fst (setupTypeScript rt cmd st) = None"
    and "truthy (argv2 cmd) \<or> filename cmd \<noteq> packageJSONPath cmd"
  shows "\<exists>pkg' dev' scr'.
    lookup (files (snd (setupTypeScript rt cmd st))) (packageJSONPath cmd) =
      Some (File (stringify rt (JObj pkg'))) \<and>
    map fst pkg' = map fst pkg \<and>
    (\<forall>k. k \<noteq> ''devDependencies'' \<and> k \<noteq> ''scripts'' \<longrightarrow> map_of pkg' k = map_of pkg k) \<and>
    map_of pkg' ''devDependencies'' = Some (JObj dev') \<and>
    map_of pkg' ''scripts'' = Some (JObj scr') \<and>
    (\<forall>k. k \<notin> {''svelte-check'', ''svelte-preprocess'', ''@rollup/plugin-typescript'',
            ''typescript'', ''tslib'', ''@tsconfig/svelte''} \<longrightarrow> map_of dev' k = map_of dev k) \<and>
    map_of dev' ''svelte-check'' = Some (JStr ''^3.0.0'') \<and>
    map_of dev' ''svelte-preprocess'' = Some (JStr ''^5.0.0'') \<and>
    map_of dev' ''@rollup/plugin-typescript'' = Some (JStr ''^11.0.0'') \<and>
    map_of dev' ''typescript'' = Some (JStr ''^4.9.0'') \<and>
    map_of dev' ''tslib'' = Some (JStr ''^2.5.0'') \<and>
    map_of dev' ''@tsconfig/svelte'' = Some (JStr ''^3.0.0'') \<and>
    (\<forall>k. k \<noteq> ''check'' \<longrightarrow> map_of scr' k = map_of scr k) \<and>
    map_of scr' ''check'' = Some (JStr ''svelte-check'')"
proof -
  define dev' where "dev' = fold (\<lambda>(k, v). AList.update k v) devDependencies_added dev"
  define scr' where "scr' = fold (\<lambda>(k, v). AList.update k v) scripts_added scr"
  define mid where "mid = AList.update ''devDependencies'' (JObj dev') pkg"
  define pkg' where "pkg' = AList.update ''scripts'' (JObj scr') mid"
  let ?q = "packageJSONPath cmd"
  let ?P = "\<lambda>s. lookup (files s) ?q = Some (File (stringify rt (JObj pkg')))"
  have merge: "merge_packageJSON (JObj pkg) = Inr (JObj pkg')"
    unfolding pkg'_def mid_def scr'_def dev'_def
    using assms(3,4) by (rule merge_packageJSON_object)
  have mid_scr: "map_of mid ''scripts'' = Some (JObj scr)"
    using assms(4) by (simp add: mid_def update_conv')
  have keys: "map fst pkg' = map fst pkg"
    unfolding pkg'_def using update_present_keys[OF mid_scr]
      update_present_keys[OF assms(3)] by (simp add: mid_def)
  have others: "\<forall>k. k \<noteq> ''devDependencies'' \<and> k \<noteq> ''scripts'' \<longrightarrow>
      map_of pkg' k = map_of pkg k"
    by (simp add: pkg'_def mid_def update_conv')
  have maps: "map_of pkg' ''devDependencies'' = Some (JObj dev')"
    "map_of pkg' ''scripts'' = Some (JObj scr')"
    by (simp_all add: pkg'_def mid_def update_conv')
  from assms(5) obtain s1 s2 s7 where
    1: "atomic (step_packageJSON rt cmd) st = (None, s1)" and
    conv: "exec [atomic (step_rename cmd), atomic (step_appFile cmd),
           atomic (step_rollupConfig cmd), atomic (step_tsconfig cmd),
           atomic (step_svelteConfig cmd), atomic (step_dts cmd)] s1 = (None, s7)" and
    rest: "exec (cleanup_steps cmd @ finish_steps cmd) s7 =
      (None, snd (setupTypeScript rt cmd st))"
    by (rule run_success)
  from 1 obtain fs1 where "step_packageJSON rt cmd (files st) = Inr fs1"
    and s1: "s1 = st\<lparr>files := fs1\<rparr>" unfolding atomic_None by blast
  with assms(1,2) merge have
    "writeFileSync (files st) ?q (stringify rt (JObj pkg')) = Inr fs1"
    by (simp add: step_packageJSON_def readFileSync_def and_then_def)
  then have "lookup fs1 ?q = Some (File (stringify rt (JObj pkg')))"
    by (simp add: lookup_writeFileSync)
  with s1 have P1: "?P s1" by simp
  have A: "list_all (preserves ?P)
      [atomic (step_rename cmd), atomic (step_appFile cmd), atomic (step_rollupConfig cmd),
       atomic (step_tsconfig cmd), atomic (step_svelteConfig cmd), atomic (step_dts cmd)]"
    by (simp add: keep_rename keep_appFile keep_rollupConfig keep_tsconfig
        keep_svelteConfig keep_dts target_paths)
  have B: "list_all (preserves ?P) (cleanup_steps cmd @ finish_steps cmd)"
    using assms(6)
    by (intro keep_after_conversion_file) (auto simp: target_paths)
  from exec_keeps[OF A conv P1] have "?P s7" .
  from exec_keeps[OF B rest this] have "?P (snd (setupTypeScript rt cmd st))" .
  with keys others maps devDependencies_merged[of dev] scripts_merged[of scr]
  have "lookup (files (snd (setupTypeScript rt cmd st))) (packageJSONPath cmd) =
      Some (File (stringify rt (JObj pkg'))) \<and>
    map fst pkg' = map fst pkg \<and>
    (\<forall>k. k \<noteq> ''devDependencies'' \<and> k \<noteq> ''scripts'' \<longrightarrow> map_of pkg' k = map_of pkg k) \<and>
    map_of pkg' ''devDependencies'' = Some (JObj dev') \<and>
    map_of pkg' ''scripts'' = Some (JObj scr') \<and>
    (\<forall>k. k \<notin> {''svelte-check'', ''svelte-preprocess'', ''@rollup/plugin-typescript'',
            ''typescript'', ''tslib'', ''@tsconfig/svelte''} \<longrightarrow> map_of dev' k = map_of dev k) \<and>
    map_of dev' ''svelte-check'' = Some (JStr ''^3.0.0'') \<and>
    map_of dev' ''svelte-preprocess'' = Some (JStr ''^5.0.0'') \<and>
    map_of dev' ''@rollup/plugin-typescript'' = Some (JStr ''^11.0.0'') \<and>
    map_of dev' ''typescript'' = Some (JStr ''^4.9.0'') \<and>
    map_of dev' ''tslib'' = Some (JStr ''^2.5.0'') \<and>
    map_of dev' ''@tsconfig/svelte'' = Some (JStr ''^3.0.0'') \<and>
    (\<forall>k. k \<noteq> ''check'' \<longrightarrow> map_of scr' k = map_of scr k) \<and>
    map_of scr' ''check'' = Some (JStr ''svelte-check'')"
    unfolding dev'_def[symmetric] scr'_def[symmetric] by (intro conjI)
  then show ?thesis by (intro exI)
qed

theorem manifest_merged_witness:
  "lookup (files demo_state) (packageJSONPath demo_in_place) = Some (File demo_manifest) \<and>
   parse demo_runtime demo_manifest =
     Some (JObj [(''devDependencies'', JObj [(''svelte'', JStr ''^3.0.0'')]),
                 (''scripts'', JObj [(''build'', JStr ''rollup -c'')])]) \<and>
   fst (setupTypeScript demo_runtime demo_in_place demo_state) = None \<and>
   filename demo_in_place \<noteq> packageJSONPath demo_in_place \<and>
   (\<exists>pkg' dev' scr'.
      lookup (files (snd (setupTypeScript demo_runtime demo_in_place demo_state)))
        (packageJSONPath demo_in_place) = Some (File (stringify demo_runtime (JObj pkg'))) \<and>
      map_of pkg' ''devDependencies'' = Some (JObj dev') \<and>
      map_of pkg' ''scripts'' = Some (JObj scr') \<and>
      map_of dev' ''svelte'' = Some (JStr ''^3.0.0'') \<and>
      map_of dev' ''typescript'' = Some (JStr ''^4.9.0'') \<and>
      map_of scr' ''build'' = Some (JStr ''rollup -c'') \<and>
      map_of scr' ''check'' = Some (JStr ''svelte-check''))"
proof -
  have 1: "lookup (files demo_state) (packageJSONPath demo_in_place) =
      Some (File demo_manifest)"
    by (simp add: demo_state_def demo_files_def demo_in_place_def packageJSONPath_def
        projectRoot_def dirname_def lookup_def)
  have 2: "parse demo_runtime demo_manifest =
      Some (JObj [(''devDependencies'', JObj [(''svelte'', JStr ''^3.0.0'')]),
                  (''scripts'', JObj [(''build'', JStr ''rollup -c'')])])"
    by (simp add: demo_runtime_def demo_packageJSON_def)
  have 3: "map_of [(''devDependencies'', JObj [(''svelte'', JStr ''^3.0.0'')]),
                   (''scripts'', JObj [(''build'', JStr ''rollup -c'')])] ''devDependencies'' =
      Some (JObj [(''svelte'', JStr ''^3.0.0'')])"
    by simp
  have 4: "map_of [(''devDependencies'', JObj [(''svelte'', JStr ''^3.0.0'')]),
                   (''scripts'', JObj [(''build'', JStr ''rollup -c'')])] ''scripts'' =
      Some (JObj [(''build'', JStr ''rollup -c'')])"
    by simp
  have 5: "fst (setupTypeScript demo_runtime demo_in_place demo_state) = None"
    by code_simp
  have 6: "filename demo_in_place \<noteq> packageJSONPath demo_in_place"
    by (simp add: filename_def demo_in_place_def packageJSONPath_def projectRoot_def
        dirname_def)
  from 6 have 7: "truthy (argv2 demo_in_place) \<or>
      filename demo_in_place \<noteq> packageJSONPath demo_in_place" by simp
  from manifest_merged[OF 1 2 3 4 5 7] show ?thesis
  proof (elim exE conjE)
    fix pkg' dev' scr'
    assume r: "lookup (files (snd (setupTypeScript demo_runtime demo_in_place demo_state)))
        (packageJSONPath demo_in_place) = Some (File (stringify demo_runtime (JObj pkg')))"
      "map_of pkg' ''devDependencies'' = Some (JObj dev')"
      "map_of pkg' ''scripts'' = Some (JObj scr')"
      "\<forall>k. k \<notin> {''svelte-check'', ''svelte-preprocess'', ''@rollup/plugin-typescript'',
            ''typescript'', ''tslib'', ''@tsconfig/svelte''} \<longrightarrow>
          map_of dev' k = map_of [(''svelte'', JStr ''^3.0.0'')] k"
      "map_of dev' ''typescript'' = Some (JStr ''^4.9.0'')"
      "\<forall>k. k \<noteq> ''check'' \<longrightarrow> map_of scr' k = map_of [(''build'', JStr ''rollup -c'')] k"
      "map_of scr' ''check'' = Some (JStr ''svelte-check'')"
    from r(4) have d: "map_of dev' ''svelte'' = Some (JStr ''^3.0.0'')" by simp
    from r(6) have b: "map_of scr' ''build'' = Some (JStr ''rollup -c'')" by simp
    have "lookup (files (snd (setupTypeScript demo_runtime demo_in_place demo_state)))
        (packageJSONPath demo_in_place) = Some (File (stringify demo_runtime (JObj pkg'))) \<and>
      map_of pkg' ''devDependencies'' = Some (JObj dev') \<and>
      map_of pkg' ''scripts'' = Some (JObj scr') \<and>
      map_of dev' ''svelte'' = Some (JStr ''^3.0.0'') \<and>
      map_of dev' ''typescript'' = Some (JStr ''^4.9.0'') \<and>
      map_of scr' ''build'' = Some (JStr ''rollup -c'') \<and>
      map_of scr' ''check'' = Some (JStr ''svelte-check'')"
      using r(1,2,3,5,7) d b by (intro conjI)
    then have "\<exists>pkg' dev' scr'.
      lookup (files (snd (setupTypeScript demo_runtime demo_in_place demo_state)))
        (packageJSONPath demo_in_place) = Some (File (stringify demo_runtime (JObj pkg'))) \<and>
      map_of pkg' ''devDependencies'' = Some (JObj dev') \<and>
      map_of pkg' ''scripts'' = Some (JObj scr') \<and>
      map_of dev' ''svelte'' = Some (JStr ''^3.0.0'') \<and>
      map_of dev' ''typescript'' = Some (JStr ''^4.9.0'') \<and>
      map_of scr' ''build'' = Some (JStr ''rollup -c'') \<and>
      map_of scr' ''check'' = Some (JStr ''svelte-check'')"
      by (intro exI)
    with 1 2 5 6 show ?thesis by (intro conjI)
  qed
qed

text \<open>
  C5. A root component that contains neither the script tag nor the declaration: the two
  replacements change nothing, and the step that reads the component, replaces and writes
  it back ends without an error in the state in which it began.
\<close>

theorem appFile_without_anchors:
  assumes "\<not> str_includes appFile script_tag"
    and "\<not> str_includes appFile name_decl"
    and "lookup (files st) (appSveltePath cmd) = Some (File appFile)"
    and "lookup (files st) (projectRoot cmd @ [''src'']) = Some Dir"
  shows "convert_appFile appFile = appFile \<and> atomic (step_appFile cmd) st = (None, st)"
proof -
  have same: "convert_appFile appFile = appFile"
    using assms(1,2) by (rule convert_appFile_absent)
  have "butlast (appSveltePath cmd) = projectRoot cmd @ [''src'']"
    by (simp add: appSveltePath_def butlast_append)
  with assms(3,4) have "writeFileSync (files st) (appSveltePath cmd) appFile = Inr (files st)"
    by (simp add: writeFileSync_same)
  with assms(3) same have "step_appFile cmd (files st) = Inr (files st)"
    by (simp add: step_appFile_def readFileSync_def and_then_def)
  then have "atomic (step_appFile cmd) st = (None, st\<lparr>files := files st\<rparr>)"
    by (rule atomic_Inr)
  with same show ?thesis by simp
qed

theorem appFile_without_anchors_witness:
  "\<not> str_includes ''<h1>Hello!</h1>'' script_tag \<and>
   \<not> str_includes ''<h1>Hello!</h1>'' name_decl \<and>
   lookup (files demo_plain_state) (appSveltePath demo_in_place) =
     Some (File ''<h1>Hello!</h1>'') \<and>
   lookup (files demo_plain_state) (projectRoot demo_in_place @ [''src'']) = Some Dir \<and>
   convert_appFile ''<h1>Hello!</h1>'' = ''<h1>Hello!</h1>'' \<and>
   atomic (step_appFile demo_in_place) demo_plain_state = (None, demo_plain_state)"
proof -
  have 1: "\<not> str_includes ''<h1>Hello!</h1>'' script_tag"
    by (simp add: script_tag_def)
  have 2: "\<not> str_includes ''<h1>Hello!</h1>'' name_decl"
    by (simp add: name_decl_def)
  have 3: "lookup (files demo_plain_state) (appSveltePath demo_in_place) =
      Some (File ''<h1>Hello!</h1>'')"
    by (simp add: demo_plain_state_def demo_in_place_def appSveltePath_def projectRoot_def
        dirname_def lookup_def update_conv')
  have 4: "lookup (files demo_plain_state) (projectRoot demo_in_place @ [''src'']) = Some Dir"
    by (simp add: demo_plain_state_def demo_files_def demo_in_place_def projectRoot_def
        dirname_def lookup_def update_conv')
  from appFile_without_anchors[OF 1 2 3 4] 1 2 3 4 show ?thesis by (intro conjI) simp_all
qed






text \<open>
  C7, as amended. With an argument that is not the empty string the run has no deleting
  step. Whether it succeeds or fails, every path that existed before, other than the
  renamed entry point and what lies below it, exists afterwards; and every path that is
  none of the files the conversion rewrites, does not lie at or below the old or the new
  entry point, and existed before or is not on the way to the editor directory, is
  afterwards what it was before. This holds in particular for the file of the script, its
  directory and a metadata file in it, wherever the script lies.
\<close>

theorem explicit_argument_deletes_nothing:
  assumes "argv2 cmd = Some dir" and "dir \<noteq> []"
  shows "(\<forall>q. lookup (files st) q \<noteq> None \<and> \<not> prefix (beforeMainJSPath cmd) q \<longrightarrow>
       lookup (files (snd (setupTypeScript rt cmd st))) q \<noteq> None) \<and>
    (\<forall>q. q \<notin> set (rewritten cmd) \<and> \<not> prefix (beforeMainJSPath cmd) q \<and>
         \<not> prefix (afterMainTSPath cmd) q \<and>
         (lookup (files st) q \<noteq> None \<or> \<not> prefix q (vscodePath cmd)) \<longrightarrow>
       lookup (files (snd (setupTypeScript rt cmd st))) q = lookup (files st) q)"
proof -
  from assms have t: "truthy (argv2 cmd)" by simp
  show ?thesis
    using run_keeps_existing[OF t] run_keeps_unchanged[OF t] by blast
qed

theorem explicit_argument_deletes_nothing_witness:
  "argv2 demo_with_arg = Some ''proj'' \<and>
   lookup (files demo_metadata_state) (filename demo_with_arg) = Some (File ''the script'') \<and>
   lookup (files (snd (setupTypeScript demo_runtime demo_with_arg demo_metadata_state)))
     (filename demo_with_arg) = Some (File ''the script'') \<and>
   lookup (files (snd (setupTypeScript demo_runtime demo_with_arg demo_metadata_state)))
     (dirname demo_with_arg) = Some Dir \<and>
   lookup (files (snd (setupTypeScript demo_runtime demo_with_arg demo_metadata_state)))
     (DS_storePath demo_with_arg) = Some (File ''metadata'')"
proof -
  have 1: "argv2 demo_with_arg = Some ''proj''" "''proj'' \<noteq> []"
    by (simp_all add: demo_with_arg_def)
  have root: "projectRoot demo_with_arg = [''proj'']"
    by (simp add: projectRoot_def demo_with_arg_def resolve_def)
  have l: "lookup (files demo_metadata_state) (filename demo_with_arg) =
      Some (File ''the script'')"
    "lookup (files demo_metadata_state) (dirname demo_with_arg) = Some Dir"
    "lookup (files demo_metadata_state) (DS_storePath demo_with_arg) = Some (File ''metadata'')"
    by (simp_all add: demo_metadata_state_def demo_files_def demo_with_arg_def filename_def
        dirname_def DS_storePath_def lookup_def)
  have p: "filename demo_with_arg = [''proj'', ''scripts'', ''setupTypeScript.js'']"
    "dirname demo_with_arg = [''proj'', ''scripts'']"
    "DS_storePath demo_with_arg = [''proj'', ''scripts'', ''.DS_store'']"
    by (simp_all add: demo_with_arg_def filename_def dirname_def DS_storePath_def)
  note t = explicit_argument_deletes_nothing[OF 1, of demo_metadata_state demo_runtime,
      THEN conjunct2, rule_format]
  have "lookup (files (snd (setupTypeScript demo_runtime demo_with_arg demo_metadata_state)))
      (filename demo_with_arg) = lookup (files demo_metadata_state) (filename demo_with_arg)"
    by (rule t) (simp add: l p rewritten_def target_paths root)
  moreover have "lookup (files (snd (setupTypeScript demo_runtime demo_with_arg
      demo_metadata_state))) (dirname demo_with_arg) =
      lookup (files demo_metadata_state) (dirname demo_with_arg)"
    by (rule t) (simp add: l p rewritten_def target_paths root)
  moreover have "lookup (files (snd (setupTypeScript demo_runtime demo_with_arg
      demo_metadata_state))) (DS_storePath demo_with_arg) =
      lookup (files demo_metadata_state) (DS_storePath demo_with_arg)"
    by (rule t) (simp add: l p rewritten_def target_paths root)
  ultimately show ?thesis using 1(1) l by simp
qed

text \<open>
  The claim as it was stated fails for the empty string as the argument: it is an argument,
  it counts as false, and the script runs in place and deletes itself.
\<close>

theorem empty_argument_deletes_script:
  "argv2 demo_empty_arg = Some [] \<and>
   lookup (files demo_state) (filename demo_empty_arg) = Some (File ''the script'') \<and>
   fst (setupTypeScript demo_runtime demo_empty_arg demo_state) = None \<and>
   lookup (files (snd (setupTypeScript demo_runtime demo_empty_arg demo_state)))
     (filename demo_empty_arg) = None"
  by code_simp

text \<open>
  C8. The script is started without an argument and the conversion steps have succeeded.
  Then the script's file is deleted; when the script was alone in its directory, or alone
  with a file \<^verbatim>\<open>.DS_store\<close>, that file and the directory are deleted too; when the
  directory holds anything else, only the script goes. An error in one of the deletions
  ends the run with that error, and otherwise the run goes on with the state the
  deletions leave. The conversion steps do not change the directory of a script that
  lies in a directory of the target other than \<^verbatim>\<open>src\<close>, so what the directory holds
  when the deletions begin is what it held when the run began.
\<close>

theorem script_deletes_itself:
  assumes "\<not> truthy (argv2 cmd)"
    and "exec (conversion_steps rt cmd) st = (None, mid)"
  shows "(lookup (files mid) (filename cmd) = Some (File body) \<and>
      lookup (files mid) (dirname cmd) = Some Dir \<and> dirname cmd \<noteq> [] \<and>
      set (entries (files mid) (dirname cmd)) = {last (filename cmd)} \<longrightarrow>
        (\<exists>st1. exec (cleanup_steps cmd) mid = (None, st1) \<and>
           (\<forall>q. lookup (files st1) q =
              (if q = filename cmd \<or> q = dirname cmd then None
               else lookup (files mid) q)))) \<and>
    (lookup (files mid) (filename cmd) = Some (File body) \<and>
      lookup (files mid) (dirname cmd) = Some Dir \<and> dirname cmd \<noteq> [] \<and>
      lookup (files mid) (DS_storePath cmd) = Some (File body') \<and>
      set (entries (files mid) (dirname cmd)) = {last (filename cmd), ''.DS_store''} \<and>
      last (filename cmd) \<noteq> ''.DS_store'' \<longrightarrow>
        (\<exists>st1. exec (cleanup_steps cmd) mid = (None, st1) \<and>
           (\<forall>q. lookup (files st1) q =
              (if q = filename cmd \<or> q = DS_storePath cmd \<or> q = dirname cmd then None
               else lookup (files mid) q)))) \<and>
    (lookup (files mid) (filename cmd) = Some (File body) \<and>
      lookup (files mid) (dirname cmd) = Some Dir \<and>
      n \<in> set (entries (files mid) (dirname cmd)) \<and> n \<noteq> last (filename cmd) \<and>
      n \<noteq> ''.DS_store'' \<longrightarrow>
        (\<exists>st1. exec (cleanup_steps cmd) mid = (None, st1) \<and>
           (\<forall>q. lookup (files st1) q =
              (if q = filename cmd then None else lookup (files mid) q)))) \<and>
    (\<forall>e st1. exec (cleanup_steps cmd) mid = (Some e, st1) \<longrightarrow>
       setupTypeScript rt cmd st = (Some e, st1)) \<and>
    (\<forall>st1. exec (cleanup_steps cmd) mid = (None, st1) \<longrightarrow>
       setupTypeScript rt cmd st = exec (finish_steps cmd) st1) \<and>
    (dirname cmd \<noteq> [] \<and> last (dirname cmd) \<noteq> ''src'' \<and>
      lookup (files st) (dirname cmd) = Some Dir \<longrightarrow>
        lookup (files mid) (dirname cmd) = Some Dir \<and>
        lookup (files mid) (filename cmd) = lookup (files st) (filename cmd) \<and>
        set (entries (files mid) (dirname cmd)) = set (entries (files st) (dirname cmd)))"
proof (intro conjI impI allI)
  assume "lookup (files mid) (filename cmd) = Some (File body) \<and>
      lookup (files mid) (dirname cmd) = Some Dir \<and> dirname cmd \<noteq> [] \<and>
      set (entries (files mid) (dirname cmd)) = {last (filename cmd)}"
  then show "\<exists>st1. exec (cleanup_steps cmd) mid = (None, st1) \<and>
      (\<forall>q. lookup (files st1) q =
         (if q = filename cmd \<or> q = dirname cmd then None else lookup (files mid) q))"
    using cleanup_script_only[OF assms(1), of mid body] by blast
next
  assume "lookup (files mid) (filename cmd) = Some (File body) \<and>
      lookup (files mid) (dirname cmd) = Some Dir \<and> dirname cmd \<noteq> [] \<and>
      lookup (files mid) (DS_storePath cmd) = Some (File body') \<and>
      set (entries (files mid) (dirname cmd)) = {last (filename cmd), ''.DS_store''} \<and>
      last (filename cmd) \<noteq> ''.DS_store''"
  then show "\<exists>st1. exec (cleanup_steps cmd) mid = (None, st1) \<and>
      (\<forall>q. lookup (files st1) q =
         (if q = filename cmd \<or> q = DS_storePath cmd \<or> q = dirname cmd then None
          else lookup (files mid) q))"
    using cleanup_script_and_metadata[OF assms(1), of mid body body'] by blast
next
  assume "lookup (files mid) (filename cmd) = Some (File body) \<and>
      lookup (files mid) (dirname cmd) = Some Dir \<and>
      n \<in> set (entries (files mid) (dirname cmd)) \<and> n \<noteq> last (filename cmd) \<and>
      n \<noteq> ''.DS_store''"
  then show "\<exists>st1. exec (cleanup_steps cmd) mid = (None, st1) \<and>
      (\<forall>q. lookup (files st1) q = (if q = filename cmd then None else lookup (files mid) q))"
    using cleanup_directory_in_use[OF assms(1), of mid body n] by blast
next
  fix e st1 assume "exec (cleanup_steps cmd) mid = (Some e, st1)"
  with assms(2) show "setupTypeScript rt cmd st = (Some e, st1)"
    by (rule cleanup_failure_is_fatal)
next
  fix st1 assume "exec (cleanup_steps cmd) mid = (None, st1)"
  with assms(2) show "setupTypeScript rt cmd st = exec (finish_steps cmd) st1"
    by (rule cleanup_then_finish)
next
  assume h: "dirname cmd \<noteq> [] \<and> last (dirname cmd) \<noteq> ''src'' \<and>
      lookup (files st) (dirname cmd) = Some Dir"
  then have d: "dirname cmd \<noteq> []" "last (dirname cmd) \<noteq> ''src''"
    "lookup (files st) (dirname cmd) = Some Dir" by simp_all
  note k = conversion_keeps_script_directory[OF assms(1) d assms(2)]
  show "lookup (files mid) (dirname cmd) = Some Dir" by (rule k(1))
  show "set (entries (files mid) (dirname cmd)) = set (entries (files st) (dirname cmd))"
    by (rule k(3))
  show "lookup (files mid) (filename cmd) = lookup (files st) (filename cmd)"
  proof (cases "filename cmd = []")
    case True
    then show ?thesis by simp
  next
    case False
    then have "filename cmd = dirname cmd @ [last (filename cmd)]"
      by (simp add: filename_def dirname_def)
    with k(2)[of "last (filename cmd)"] show ?thesis by simp
  qed
qed

theorem script_deletes_itself_witness:
  "\<not> truthy (argv2 demo_in_place) \<and>
   fst (exec (conversion_steps demo_runtime demo_in_place) demo_state) = None \<and>
   set (entries (files demo_state) (dirname demo_in_place)) = {''setupTypeScript.js''} \<and>
   fst (exec (cleanup_steps demo_in_place)
     (snd (exec (conversion_steps demo_runtime demo_in_place) demo_state))) = None \<and>
   lookup (files (snd (exec (cleanup_steps demo_in_place)
     (snd (exec (conversion_steps demo_runtime demo_in_place) demo_state)))))
     (filename demo_in_place) = None \<and>
   lookup (files (snd (exec (cleanup_steps demo_in_place)
     (snd (exec (conversion_steps demo_runtime demo_in_place) demo_state)))))
     (dirname demo_in_place) = None \<and>
   setupTypeScript demo_runtime demo_in_place demo_state =
     exec (finish_steps demo_in_place) (snd (exec (cleanup_steps demo_in_place)
       (snd (exec (conversion_steps demo_runtime demo_in_place) demo_state)))) \<and>
   fst (exec (conversion_steps demo_runtime demo_in_place) demo_metadata_state) = None \<and>
   set (entries (files demo_metadata_state) (dirname demo_in_place)) =
     {''setupTypeScript.js'', ''.DS_store''} \<and>
   fst (exec (cleanup_steps demo_in_place)
     (snd (exec (conversion_steps demo_runtime demo_in_place) demo_metadata_state))) = None \<and>
   lookup (files (snd (exec (cleanup_steps demo_in_place)
     (snd (exec (conversion_steps demo_runtime demo_in_place) demo_metadata_state)))))
     (filename demo_in_place) = None \<and>
   lookup (files (snd (exec (cleanup_steps demo_in_place)
     (snd (exec (conversion_steps demo_runtime demo_in_place) demo_metadata_state)))))
     (DS_storePath demo_in_place) = None \<and>
   lookup (files (snd (exec (cleanup_steps demo_in_place)
     (snd (exec (conversion_steps demo_runtime demo_in_place) demo_metadata_state)))))
     (dirname demo_in_place) = None \<and>
   \<not> truthy (argv2 demo_gone) \<and>
   fst (exec (conversion_steps demo_runtime demo_gone) demo_state) = None \<and>
   fst (exec (cleanup_steps demo_gone)
     (snd (exec (conversion_steps demo_runtime demo_gone) demo_state))) = Some ENOENT \<and>
   fst (setupTypeScript demo_runtime demo_gone demo_state) = Some ENOENT"
proof -
  define mid where "mid = snd (exec (conversion_steps demo_runtime demo_in_place) demo_state)"
  define mid' where
    "mid' = snd (exec (conversion_steps demo_runtime demo_in_place) demo_metadata_state)"
  define mid'' where "mid'' = snd (exec (conversion_steps demo_runtime demo_gone) demo_state)"
  have n: "\<not> truthy (argv2 demo_in_place)" "\<not> truthy (argv2 demo_gone)"
    by (simp_all add: demo_in_place_def demo_gone_def)
  have p: "filename demo_in_place = [''proj'', ''scripts'', ''setupTypeScript.js'']"
    "dirname demo_in_place = [''proj'', ''scripts'']"
    "DS_storePath demo_in_place = [''proj'', ''scripts'', ''.DS_store'']"
    by (simp_all add: demo_in_place_def filename_def dirname_def DS_storePath_def)
  have f: "fst (exec (conversion_steps demo_runtime demo_in_place) demo_state) = None"
    by code_simp
  have f': "fst (exec (conversion_steps demo_runtime demo_in_place) demo_metadata_state) = None"
    by code_simp
  have f'': "fst (exec (conversion_steps demo_runtime demo_gone) demo_state) = None"
    by code_simp
  have g'': "fst (exec (cleanup_steps demo_gone)
      (snd (exec (conversion_steps demo_runtime demo_gone) demo_state))) = Some ENOENT"
    by code_simp
  have c: "exec (conversion_steps demo_runtime demo_in_place) demo_state = (None, mid)"
    unfolding mid_def using f by (metis prod.collapse)
  have c': "exec (conversion_steps demo_runtime demo_in_place) demo_metadata_state =
      (None, mid')"
    unfolding mid'_def using f' by (metis prod.collapse)
  have c'': "exec (conversion_steps demo_runtime demo_gone) demo_state = (None, mid'')"
    unfolding mid''_def using f'' by (metis prod.collapse)
  have i: "lookup (files demo_state) [''proj'', ''scripts''] = Some Dir"
    "lookup (files demo_state) [''proj'', ''scripts'', ''setupTypeScript.js''] =
      Some (File ''the script'')"
    "set (entries (files demo_state) [''proj'', ''scripts'']) = {''setupTypeScript.js''}"
    by (simp_all add: demo_state_def demo_files_def lookup_def entries_def)
  have i': "lookup (files demo_metadata_state) [''proj'', ''scripts''] = Some Dir"
    "lookup (files demo_metadata_state) [''proj'', ''scripts'', ''setupTypeScript.js''] =
      Some (File ''the script'')"
    "lookup (files demo_metadata_state) [''proj'', ''scripts'', ''.DS_store''] =
      Some (File ''metadata'')"
    "set (entries (files demo_metadata_state) [''proj'', ''scripts'']) =
      {''setupTypeScript.js'', ''.DS_store''}"
    by (simp_all add: demo_metadata_state_def demo_files_def lookup_def entries_def)
  note t = script_deletes_itself[OF n(1) c, of "''the script''" "''metadata''" "''other''"]
  note t' = script_deletes_itself[OF n(1) c', of "''the script''" "''metadata''" "''other''"]
  note t'' = script_deletes_itself[OF n(2) c'', of "''the script''" "''metadata''" "''other''"]
  have b: "lookup (files mid) [''proj'', ''scripts''] = Some Dir"
    "lookup (files mid) [''proj'', ''scripts'', ''setupTypeScript.js''] =
      Some (File ''the script'')"
    "set (entries (files mid) [''proj'', ''scripts'']) = {''setupTypeScript.js''}"
    using t[THEN conjunct2, THEN conjunct2, THEN conjunct2, THEN conjunct2, THEN conjunct2]
      i p by simp_all
  have h: "lookup (files mid) (filename demo_in_place) = Some (File ''the script'') \<and>
      lookup (files mid) (dirname demo_in_place) = Some Dir \<and> dirname demo_in_place \<noteq> [] \<and>
      set (entries (files mid) (dirname demo_in_place)) = {last (filename demo_in_place)}"
    using b by (simp add: p)
  from t[THEN conjunct1, THEN mp, OF h] obtain st1 where
    s1: "exec (cleanup_steps demo_in_place) mid = (None, st1)" and
    l: "\<And>q. lookup (files st1) q =
      (if q = filename demo_in_place \<or> q = dirname demo_in_place then None
       else lookup (files mid) q)"
    by blast
  have s: "exec (cleanup_steps demo_in_place) mid = (None, st1)"
    "lookup (files st1) [''proj'', ''scripts'', ''setupTypeScript.js''] = None"
    "lookup (files st1) [''proj'', ''scripts''] = None"
    using s1 l[of "filename demo_in_place"] l[of "dirname demo_in_place"]
    by (simp_all add: p)
  from t[THEN conjunct2, THEN conjunct2, THEN conjunct2, THEN conjunct2, THEN conjunct1] s(1)
  have r: "setupTypeScript demo_runtime demo_in_place demo_state =
      exec (finish_steps demo_in_place) st1"
    by blast
  have b': "lookup (files mid') [''proj'', ''scripts''] = Some Dir"
    "lookup (files mid') [''proj'', ''scripts'', ''setupTypeScript.js''] =
      Some (File ''the script'')"
    "set (entries (files mid') [''proj'', ''scripts'']) =
      {''setupTypeScript.js'', ''.DS_store''}"
    using t'[THEN conjunct2, THEN conjunct2, THEN conjunct2, THEN conjunct2, THEN conjunct2]
      i' p by simp_all
  have m': "lookup (files mid') [''proj'', ''scripts'', ''.DS_store''] =
      Some (File ''metadata'')"
    by (unfold mid'_def) code_simp
  have h': "lookup (files mid') (filename demo_in_place) = Some (File ''the script'') \<and>
      lookup (files mid') (dirname demo_in_place) = Some Dir \<and> dirname demo_in_place \<noteq> [] \<and>
      lookup (files mid') (DS_storePath demo_in_place) = Some (File ''metadata'') \<and>
      set (entries (files mid') (dirname demo_in_place)) =
        {last (filename demo_in_place), ''.DS_store''} \<and>
      last (filename demo_in_place) \<noteq> ''.DS_store''"
    using b' m' by (simp add: p)
  from t'[THEN conjunct2, THEN conjunct1, THEN mp, OF h'] obtain st1' where
    s1': "exec (cleanup_steps demo_in_place) mid' = (None, st1')" and
    l': "\<And>q. lookup (files st1') q =
      (if q = filename demo_in_place \<or> q = DS_storePath demo_in_place \<or>
          q = dirname demo_in_place then None
       else lookup (files mid') q)"
    by blast
  have s': "exec (cleanup_steps demo_in_place) mid' = (None, st1')"
    "lookup (files st1') [''proj'', ''scripts'', ''setupTypeScript.js''] = None"
    "lookup (files st1') [''proj'', ''scripts'', ''.DS_store''] = None"
    "lookup (files st1') [''proj'', ''scripts''] = None"
    using s1' l'[of "filename demo_in_place"] l'[of "DS_storePath demo_in_place"]
      l'[of "dirname demo_in_place"]
    by (simp_all add: p)
  from g'' have "exec (cleanup_steps demo_gone) mid'' =
      (Some ENOENT, snd (exec (cleanup_steps demo_gone) mid''))"
    unfolding mid''_def by (metis prod.collapse)
  with t''[THEN conjunct2, THEN conjunct2, THEN conjunct2, THEN conjunct1]
  have r'': "fst (setupTypeScript demo_runtime demo_gone demo_state) = Some ENOENT"
    by (metis fst_conv)
  from n f f' f'' g'' i(3) i'(4) s s' r r'' show ?thesis
    unfolding p by (simp add: mid_def[symmetric] mid'_def[symmetric])
qed

end
